theory Spec2Isabelle
  imports Complex_Main "HOL-Library.Log_Nat"
begin

section \<open>float64\<close>

text \<open>
  A finite \<open>float64\<close> is modelled by the real number it stands for; \<open>+0\<close> and \<open>-0\<close> are the
  one number 0.  \<open>math.MaxFloat64\<close> is the largest finite double.
\<close>

definition MaxFloat64 :: real where
  "MaxFloat64 = 2 ^ 1024 - 2 ^ 971"

text \<open>
  The search for the tree and for the shortest path (\<open>findDistances\<close>, \<open>findMST\<close>,
  \<open>findSP\<close>) copies and compares distances, which is exact, and \<open>findSP\<close> adds them; there
  the distances are real numbers and the rounding of \<open>cmplx.Abs\<close> and of the sum is not
  modelled.  The drawing code (\<open>plotMST\<close>, \<open>plotSP\<close>) turns coordinates into cells of the
  grid, and there the rounding decides which cell is written: its arithmetic is that of
  IEEE 754 binary64, which returns the exact result rounded to the nearest double, ties
  to the even significand, one operation at a time (no fused multiply-add).

  \<open>float_exp x\<close> is the exponent \<open>e\<close> with \<open>2 ^ e \<le> |x| < 2 ^ (e + 1)\<close>.  The doubles near
  \<open>x\<close> are the multiples of \<open>quantum x\<close>: the significand has 53 bits, and below
  \<open>2 ^ -1022\<close> the subnormal numbers are the multiples of \<open>2 ^ -1074\<close>.  \<open>f64 x\<close> is the
  multiple nearest to \<open>x\<close>, with no bound on the exponent.
\<close>

definition float_exp :: "real \<Rightarrow> int" where
  "float_exp x = (if 1 \<le> \<bar>x\<bar> then bitlen \<lfloor>\<bar>x\<bar>\<rfloor> - 1 else - bitlen (\<lceil>1 / \<bar>x\<bar>\<rceil> - 1))"

definition pow2 :: "int \<Rightarrow> real" where
  "pow2 k = (if 0 \<le> k then 2 ^ nat k else 1 / 2 ^ nat (- k))"

definition quantum :: "real \<Rightarrow> real" where
  "quantum x = pow2 (max (float_exp x - 52) (- 1074))"

definition round_even :: "real \<Rightarrow> int" where
  "round_even r = (let f = \<lfloor>r\<rfloor>; d = r - of_int f
                   in if d < 1 / 2 then f else if 1 / 2 < d then f + 1
                      else if even f then f else f + 1)"

definition f64 :: "real \<Rightarrow> real" where
  "f64 x = (if x = 0 then 0 else of_int (round_even (x / quantum x)) * quantum x)"

text \<open>
  A \<open>float64\<close> in the drawing code: a finite double, an infinity (\<open>Infinite True\<close> is the
  negative one) or NaN.  \<open>round64\<close> is the result of an operation whose exact value is
  \<open>r\<close>: the rounded value, or an infinity when that is beyond \<open>math.MaxFloat64\<close>.
\<close>

datatype float64 = Finite real | Infinite bool | NaN

definition round64 :: "real \<Rightarrow> float64" where
  "round64 r = (let v = f64 r in if MaxFloat64 < \<bar>v\<bar> then Infinite (v < 0) else Finite v)"

fun fneg :: "float64 \<Rightarrow> float64" where
  "fneg (Finite x) = Finite (- x)"
| "fneg (Infinite s) = Infinite (\<not> s)"
| "fneg NaN = NaN"

fun fabs :: "float64 \<Rightarrow> float64" where
  "fabs (Finite x) = Finite \<bar>x\<bar>"
| "fabs (Infinite s) = Infinite False"
| "fabs NaN = NaN"

fun fadd :: "float64 \<Rightarrow> float64 \<Rightarrow> float64" where
  "fadd (Finite x) (Finite y) = round64 (x + y)"
| "fadd (Finite x) (Infinite t) = Infinite t"
| "fadd (Infinite s) (Finite y) = Infinite s"
| "fadd (Infinite s) (Infinite t) = (if s = t then Infinite s else NaN)"
| "fadd NaN b = NaN"
| "fadd a NaN = NaN"

definition fsub :: "float64 \<Rightarrow> float64 \<Rightarrow> float64" where
  "fsub a b = fadd a (fneg b)"

fun fmul :: "float64 \<Rightarrow> float64 \<Rightarrow> float64" where
  "fmul (Finite x) (Finite y) = round64 (x * y)"
| "fmul (Finite x) (Infinite t) = (if x = 0 then NaN else Infinite (t \<noteq> (x < 0)))"
| "fmul (Infinite s) (Finite y) = (if y = 0 then NaN else Infinite (s \<noteq> (y < 0)))"
| "fmul (Infinite s) (Infinite t) = Infinite (s \<noteq> t)"
| "fmul NaN b = NaN"
| "fmul a NaN = NaN"

text \<open>
  A division by zero is no panic for floats: it gives an infinity, or NaN for \<open>0 / 0\<close>.
  The zero divisors of the program are differences of equal numbers, the length 0 of
  \<open>math.Hypot\<close> and the conversion of the integer 0, all of them \<open>+0\<close>, so the infinity has
  the sign of the dividend.
\<close>

fun fdiv :: "float64 \<Rightarrow> float64 \<Rightarrow> float64" where
  "fdiv (Finite x) (Finite y) =
     (if y = 0 then (if x = 0 then NaN else Infinite (x < 0)) else round64 (x / y))"
| "fdiv (Finite x) (Infinite t) = Finite 0"
| "fdiv (Infinite s) (Finite y) = Infinite (s \<noteq> (y < 0))"
| "fdiv (Infinite s) (Infinite t) = NaN"
| "fdiv NaN b = NaN"
| "fdiv a NaN = NaN"

fun fsqrt :: "float64 \<Rightarrow> float64" where
  "fsqrt (Finite x) = (if x < 0 then NaN else round64 (sqrt x))"
| "fsqrt (Infinite s) = (if s then NaN else Infinite False)"
| "fsqrt NaN = NaN"

text \<open>The comparison \<open>a < b\<close>, which is false when an operand is NaN.\<close>

fun fless :: "float64 \<Rightarrow> float64 \<Rightarrow> bool" where
  "fless (Finite x) (Finite y) = (x < y)"
| "fless (Finite x) (Infinite t) = (\<not> t)"
| "fless (Infinite s) (Finite y) = s"
| "fless (Infinite s) (Infinite t) = (s \<and> \<not> t)"
| "fless NaN b = False"
| "fless a NaN = False"

text \<open>
  \<open>math.Hypot(p, q)\<close> of Go's library: with \<open>p, q = Abs(p), Abs(q)\<close> it returns \<open>+Inf\<close> when
  one of them is infinite, NaN when one of them is NaN, and otherwise, after exchanging
  them when \<open>p < q\<close>, 0 when \<open>p == 0\<close> and \<open>p * Sqrt(1 + q * q)\<close> for \<open>q = q / p\<close>.
  \<open>cmplx.Abs(x)\<close> is \<open>math.Hypot(real(x), imag(x))\<close>, and the difference of two complex
  numbers is the pair of the differences of their parts.
\<close>

definition Hypot :: "float64 \<Rightarrow> float64 \<Rightarrow> float64" where
  "Hypot p0 q0 =
     (let p = fabs p0; q = fabs q0
      in if p = Infinite False \<or> q = Infinite False then Infinite False
         else if p = NaN \<or> q = NaN then NaN
         else let p1 = (if fless p q then q else p);
                  q1 = (if fless p q then p else q)
              in if p1 = Finite 0 then Finite 0
                 else let q2 = fdiv q1 p1
                      in fmul p1 (fsqrt (fadd (Finite 1) (fmul q2 q2))))"

definition complex_sub :: "complex \<Rightarrow> complex \<Rightarrow> float64 \<times> float64" where
  "complex_sub a b = (fsub (Finite (Re a)) (Finite (Re b)), fsub (Finite (Im a)) (Finite (Im b)))"

definition cmplx_Abs :: "float64 \<times> float64 \<Rightarrow> float64" where
  "cmplx_Abs z = Hypot (fst z) (snd z)"

text \<open>
  \<open>int(f)\<close> of a float truncates toward zero.  For NaN, an infinity and a value beyond
  the range of \<open>int\<close>, which has 64 bits, the language leaves the result to the
  implementation; the conversion then has no value here (\<open>None\<close>), and a run that needs
  it ends with \<open>ConversionUnspecified\<close>.  \<open>float64(n)\<close> of an integer rounds, and the
  arithmetic of \<open>int\<close> wraps around.
\<close>

definition go_int :: "float64 \<Rightarrow> int option" where
  "go_int a =
     (case a of
        Finite r \<Rightarrow>
          (let t = (if 0 \<le> r then \<lfloor>r\<rfloor> else \<lceil>r\<rceil>)
           in if - (2 ^ 63) \<le> t \<and> t < 2 ^ 63 then Some t else None)
      | Infinite s \<Rightarrow> None
      | NaN \<Rightarrow> None)"

definition float_of_int :: "int \<Rightarrow> float64" where
  "float_of_int n = round64 (of_int n)"

definition wrap64 :: "int \<Rightarrow> int" where
  "wrap64 i = (i + 2 ^ 63) mod 2 ^ 64 - 2 ^ 63"

section \<open>Data model of sp.go\<close>

text \<open>The constants of the source: the grid is \<open>rows\<close> by \<open>columns\<close> cells.\<close>

definition rows :: int where
  "rows = 300"

definition columns :: int where
  "columns = rows"

definition xlabels :: nat where
  "xlabels = 11"

definition ylabels :: nat where
  "ylabels = 11"

text \<open>
  \<open>type Edge struct { v int; w int }\<close>.  The fields are only ever assigned slice indices
  and validated endpoints, which are not negative; they are natural numbers here.
\<close>

record Edge =
  edge_v :: nat
  edge_w :: nat

text \<open>\<open>type Item struct { Edge; index int; distance float64 }\<close>\<close>

record Item =
  edge :: Edge
  index :: int
  distance :: real

text \<open>
  \<open>type PriorityQueue map[int]*Item\<close>.  The keys of the map are heap positions: the
  seeding statement stores key 0 in a fresh map, \<open>Push\<close> stores key \<open>len\<close> and \<open>Pop\<close>
  deletes key \<open>len - 1\<close>, so the keys are always \<open>0 .. len - 1\<close>, and the map is the list
  of its values in key order.  An \<open>*Item\<close> is referenced from its slot of the map only, so
  the items are values.  A lookup \<open>pq[k]\<close> finds an item exactly when \<open>k < len\<close>.
\<close>

type_synonym PriorityQueue = "Item list"

text \<open>
  What ends a run before the method returns: the runtime panics of Go, and
  \<open>ConversionUnspecified\<close>, a conversion \<open>int(f)\<close> whose result the language leaves to
  the implementation, after which the model does not follow the run.  Then the errors
  the methods return (\<open>fmt.Errorf("source and/or target vertices are invalid")\<close>,
  \<open>fmt.Errorf("distance to vertex %d not found", dsp.target)\<close>).
\<close>

datatype panic =
  IndexOutOfRange | SliceBoundsOutOfRange | NilPointerDereference | ConversionUnspecified

datatype go_error = InvalidEndpoints | DistanceNotFound int

text \<open>
  \<open>type PlotT struct\<close>.  \<open>Grid\<close> holds the labels of the cells, row after row.  A
  field that the program fills with \<open>fmt.Sprintf("%.2f", x)\<close> or \<open>strconv.Itoa(n)\<close> holds
  the number that is printed, \<open>None\<close> while the string is empty; the rendering of the
  number is not modelled.
\<close>

record PlotT =
  Grid :: "string list"
  Status :: string
  Xlabel :: "float64 list"
  Ylabel :: "float64 list"
  Distance :: "float64 option"
  Vertices :: "nat option"
  Xmin :: "real option"
  Xmax :: "real option"
  Ymin :: "real option"
  Ymax :: "real option"
  StartLocation :: "complex option"
  SourceLocation :: "complex option"
  TargetLocation :: "complex option"
  Source :: "nat option"
  Target :: "nat option"
  DistanceSP :: "float64 option"

text \<open>\<open>type Endpoints struct { xmin, xmax, ymin, ymax float64 }\<close>\<close>

record Endpoints =
  xmin :: real
  xmax :: real
  ymin :: real
  ymax :: real

text \<open>
  Sequencing of steps that may panic: the first panic ends the run.
\<close>

definition and_then :: "panic + 'a \<Rightarrow> ('a \<Rightarrow> panic + 'b) \<Rightarrow> panic + 'b" where
  "and_then r f = (case r of Inl e \<Rightarrow> Inl e | Inr x \<Rightarrow> f x)"

section \<open>The priority queue and container/heap\<close>

definition Len :: "PriorityQueue \<Rightarrow> nat" where
  "Len pq = length pq"

definition Less :: "PriorityQueue \<Rightarrow> nat \<Rightarrow> nat \<Rightarrow> bool" where
  "Less pq i j = (distance (pq ! i) < distance (pq ! j))"

definition Swap :: "PriorityQueue \<Rightarrow> nat \<Rightarrow> nat \<Rightarrow> PriorityQueue" where
  "Swap pq i j = pq[i := (pq ! j)\<lparr>index := int i\<rparr>, j := (pq ! i)\<lparr>index := int j\<rparr>]"

definition Push :: "PriorityQueue \<Rightarrow> Item \<Rightarrow> PriorityQueue" where
  "Push pq item = pq @ [item\<lparr>index := int (length pq)\<rparr>]"

definition Pop :: "PriorityQueue \<Rightarrow> Item \<times> PriorityQueue" where
  "Pop pq = (let n = length pq; item = pq ! (n - 1)
             in (item\<lparr>index := - 1\<rparr>, take (n - 1) pq))"

text \<open>
  The functions of Go's \<open>container/heap\<close> that the program calls.  \<open>up\<close>: the parent of
  \<open>j\<close> is \<open>(j - 1) / 2\<close>, which Go's truncating division makes 0 for \<open>j = 0\<close>, as the
  subtraction of natural numbers does.  \<open>down\<close> returns the heap and the final position;
  Go's \<open>down\<close> returns whether that position is below the start.
\<close>

function up :: "PriorityQueue \<Rightarrow> nat \<Rightarrow> PriorityQueue" where
  "up h j = (let i = (j - 1) div 2
             in if i = j \<or> \<not> Less h j i then h else up (Swap h i j) i)"
  by pat_completeness auto
termination
  by (relation "measure (\<lambda>(h, j). j)") auto

function down :: "PriorityQueue \<Rightarrow> nat \<Rightarrow> nat \<Rightarrow> PriorityQueue \<times> nat" where
  "down h i n =
     (let j1 = 2 * i + 1
      in if j1 \<ge> n then (h, i)
         else let j = (if j1 + 1 < n \<and> Less h (j1 + 1) j1 then j1 + 1 else j1)
              in if \<not> Less h j i then (h, i) else down (Swap h i j) j n)"
  by pat_completeness auto
termination
  by (relation "measure (\<lambda>(h, i, n). n - i)") auto

definition heap_Init :: "PriorityQueue \<Rightarrow> PriorityQueue" where
  "heap_Init h = (let n = Len h in foldl (\<lambda>h' i. fst (down h' i n)) h (rev [0 ..< n div 2]))"

definition heap_Push :: "PriorityQueue \<Rightarrow> Item \<Rightarrow> PriorityQueue" where
  "heap_Push h x = (let h' = Push h x in up h' (Len h' - 1))"

definition heap_Pop :: "PriorityQueue \<Rightarrow> Item \<times> PriorityQueue" where
  "heap_Pop h = (let n = Len h - 1; h1 = Swap h 0 n; h2 = fst (down h1 0 n) in Pop h2)"

definition heap_Fix :: "PriorityQueue \<Rightarrow> nat \<Rightarrow> PriorityQueue" where
  "heap_Fix h i = (case down h i (Len h) of (h', i') \<Rightarrow> if \<not> i' > i then up h' i else h')"

text \<open>
  \<open>update(item, distance)\<close>, called with the item found at key \<open>k\<close>: the item is changed
  where it lies, then \<open>heap.Fix\<close> runs at the position the item records.
\<close>

definition update :: "PriorityQueue \<Rightarrow> nat \<Rightarrow> real \<Rightarrow> PriorityQueue" where
  "update pq k d =
     (let pq' = pq[k := (pq ! k)\<lparr>distance := d\<rparr>]
      in heap_Fix pq' (nat (index (pq' ! k))))"

section \<open>findMST\<close>

text \<open>
  \<open>type PrimMST struct\<close>.  A slot of \<open>mst\<close> is a pointer to an edge, \<open>None\<close> when nil;
  \<open>plot\<close> is a pointer too.  The embedded \<open>*Endpoints\<close> is taken to be set, as it is
  whenever \<open>generateVertices\<close> has returned without error.
\<close>

record PrimMST =
  graph :: "real list list"
  location :: "complex list"
  mst :: "Edge option list"
  endpoints :: Endpoints
  plot :: "PlotT option"

text \<open>
  The local variables of \<open>findMST\<close> that its closure \<open>visit\<close> shares with the loop;
  \<open>m_pops\<close> is not in the source: it counts the calls of \<open>heap.Pop\<close>.
\<close>

record mst_state =
  m_mst :: "Edge option list"
  m_marked :: "bool list"
  m_distTo :: "real list"
  m_pq :: PriorityQueue
  m_pops :: nat

text \<open>The body of the loop \<open>for w, dist := range p.graph[v]\<close> of \<open>visit\<close>.\<close>

definition visit_body :: "nat \<Rightarrow> mst_state \<Rightarrow> nat \<times> real \<Rightarrow> panic + mst_state" where
  "visit_body vv s wd =
     (case wd of (ww, d) \<Rightarrow>
        if ww \<ge> length (m_marked s) then Inl IndexOutOfRange
        else if m_marked s ! ww then Inr s
        else if ww \<ge> length (m_distTo s) then Inl IndexOutOfRange
        else if d < m_distTo s ! ww then
          (if ww \<ge> length (m_mst s) then Inl IndexOutOfRange
           else let s1 = s\<lparr>m_mst := (m_mst s)[ww := Some \<lparr>edge_v = vv, edge_w = ww\<rparr>],
                          m_distTo := (m_distTo s)[ww := d]\<rparr>
                in if ww < Len (m_pq s1)
                   then Inr (s1\<lparr>m_pq := update (m_pq s1) ww d\<rparr>)
                   else Inr (s1\<lparr>m_pq := heap_Push (m_pq s1)
                          \<lparr>edge = \<lparr>edge_v = vv, edge_w = ww\<rparr>, index = 0, distance = d\<rparr>\<rparr>))
        else Inr s)"

fun visit_range :: "nat \<Rightarrow> mst_state \<Rightarrow> (nat \<times> real) list \<Rightarrow> panic + mst_state" where
  "visit_range vv s [] = Inr s"
| "visit_range vv s (wd # rest) =
     (case visit_body vv s wd of Inl e \<Rightarrow> Inl e | Inr s' \<Rightarrow> visit_range vv s' rest)"

definition visit :: "real list list \<Rightarrow> nat \<Rightarrow> mst_state \<Rightarrow> panic + mst_state" where
  "visit g vv s =
     (if vv \<ge> length (m_marked s) then Inl IndexOutOfRange
      else let s1 = s\<lparr>m_marked := (m_marked s)[vv := True]\<rparr>
           in if vv \<ge> length g then Inl IndexOutOfRange
              else visit_range vv s1 (enumerate 0 (g ! vv)))"

text \<open>
  The loop \<open>for pq.Len() > 0 { item := heap.Pop(&pq); visit(item.w) }\<close>.  A run that
  never leaves the loop has the value \<open>None\<close>.
\<close>

partial_function (option) mst_loop :: "real list list \<Rightarrow> mst_state \<Rightarrow> (panic + mst_state) option" where
  "mst_loop g s =
     (if Len (m_pq s) > 0 then
        (case heap_Pop (m_pq s) of (item, q) \<Rightarrow>
           (case visit g (edge_w (edge item)) (s\<lparr>m_pq := q, m_pops := m_pops s + 1\<rparr>) of
              Inl e \<Rightarrow> Some (Inl e)
            | Inr s' \<Rightarrow> mst_loop g s'))
      else Some (Inr s))"

declare mst_loop.simps [code]

text \<open>
  \<open>findMST\<close> up to the loop: the slices are allocated with \<open>len(p.location)\<close> slots, the
  root is seeded by \<open>distTo[0] = math.MaxFloat64\<close> and \<open>pq[0] = &Item{...}\<close>, then
  \<open>heap.Init\<close> runs.
\<close>

definition findMST_init :: "PrimMST \<Rightarrow> panic + mst_state" where
  "findMST_init p =
     (let vertices = length (location p);
          distTo0 = replicate vertices MaxFloat64
      in if 0 \<ge> length distTo0 then Inl IndexOutOfRange
         else Inr \<lparr>m_mst = replicate vertices None,
                   m_marked = replicate vertices False,
                   m_distTo = distTo0[0 := MaxFloat64],
                   m_pq = heap_Init [\<lparr>edge = \<lparr>edge_v = 0, edge_w = 0\<rparr>, index = 0,
                                      distance = MaxFloat64\<rparr>],
                   m_pops = 0\<rparr>)"

text \<open>The run of \<open>findMST\<close> with the final values of its local variables.\<close>

definition findMST_run :: "PrimMST \<Rightarrow> (panic + mst_state) option" where
  "findMST_run p =
     (case findMST_init p of Inl e \<Rightarrow> Some (Inl e) | Inr s \<Rightarrow> mst_loop (graph p) s)"

text \<open>
  \<open>findMST\<close>: \<open>p.mst\<close> is replaced when the method starts and filled by \<open>visit\<close>; the
  method returns \<open>nil\<close> whenever it returns.
\<close>

definition findMST :: "PrimMST \<Rightarrow> (panic + PrimMST) option" where
  "findMST p =
     (case findMST_run p of
        None \<Rightarrow> None
      | Some (Inl e) \<Rightarrow> Some (Inl e)
      | Some (Inr s) \<Rightarrow> Some (Inr (p\<lparr>mst := m_mst s\<rparr>)))"

section \<open>findDistances\<close>

text \<open>
  \<open>findDistances\<close> fills \<open>p.graph\<close>: for \<open>i < j\<close> both \<open>graph[i][j]\<close> and \<open>graph[j][i]\<close>
  receive \<open>cmplx.Abs(p.location[i] - p.location[j])\<close>, then the diagonal receives
  \<open>math.MaxFloat64\<close>.  The matrix is given by its entries; a distance is the exact
  modulus of the difference, as the first section says.
\<close>

definition findDistances :: "PrimMST \<Rightarrow> PrimMST" where
  "findDistances p =
     (let verts = length (location p)
      in p\<lparr>graph :=
           map (\<lambda>i. map (\<lambda>j. if i = j then MaxFloat64
                              else if i < j then cmod (location p ! i - location p ! j)
                              else cmod (location p ! j - location p ! i))
                         [0 ..< verts])
               [0 ..< verts]\<rparr>)"

section \<open>Drawing on the grid\<close>

text \<open>A write \<open>Grid[i] = label\<close> panics when \<open>i\<close> is not an index of the slice.\<close>

definition set_cell :: "string list \<Rightarrow> int \<Rightarrow> string \<Rightarrow> panic + string list" where
  "set_cell grid i label =
     (if 0 \<le> i \<and> i < int (length grid) then Inr (grid[nat i := label])
      else Inl IndexOutOfRange)"

text \<open>
  \<open>row := int((p.ymax-y)*yscale + .5)\<close> and \<open>col := int((x-p.xmin)*xscale + .5)\<close>; the
  cell of the point is \<open>Grid[row*columns+col]\<close>.  The index has no value when one of the
  two conversions has none.
\<close>

definition cell_row :: "Endpoints \<Rightarrow> float64 \<Rightarrow> float64 \<Rightarrow> int option" where
  "cell_row ep yscale y = go_int (fadd (fmul (fsub (Finite (ymax ep)) y) yscale) (Finite (1 / 2)))"

definition cell_col :: "Endpoints \<Rightarrow> float64 \<Rightarrow> float64 \<Rightarrow> int option" where
  "cell_col ep xscale x = go_int (fadd (fmul (fsub x (Finite (xmin ep))) xscale) (Finite (1 / 2)))"

definition cell_index ::
  "Endpoints \<Rightarrow> float64 \<Rightarrow> float64 \<Rightarrow> float64 \<Rightarrow> float64 \<Rightarrow> int option" where
  "cell_index ep xscale yscale x y =
     (case cell_row ep yscale y of
        None \<Rightarrow> None
      | Some row \<Rightarrow>
          (case cell_col ep xscale x of
             None \<Rightarrow> None
           | Some col \<Rightarrow> Some (wrap64 (row * columns + col))))"

text \<open>The write to the cell of a point.\<close>

definition put_cell :: "string list \<Rightarrow> int option \<Rightarrow> string \<Rightarrow> panic + string list" where
  "put_cell grid c label =
     (case c of None \<Rightarrow> Inl ConversionUnspecified | Some i \<Rightarrow> set_cell grid i label)"

text \<open>
  The loop \<open>for i := 0; i < ncells; i++\<close> that draws an edge, the same in \<open>plotMST\<close>
  (label \<open>edge\<close>) and in \<open>plotSP\<close> (label \<open>edgeSP\<close>); the first argument counts the
  iterations that remain.
\<close>

fun draw_edge ::
  "nat \<Rightarrow> Endpoints \<Rightarrow> float64 \<Rightarrow> float64 \<Rightarrow> string \<Rightarrow> float64 \<Rightarrow> float64 \<Rightarrow> float64 \<Rightarrow> float64
     \<Rightarrow> string list \<Rightarrow> panic + string list" where
  "draw_edge 0 ep xscale yscale label stepX stepY x y grid = Inr grid"
| "draw_edge (Suc n) ep xscale yscale label stepX stepY x y grid =
     and_then (put_cell grid (cell_index ep xscale yscale x y) label)
       (draw_edge n ep xscale yscale label stepX stepY (fadd x stepX) (fadd y stepY))"

text \<open>
  One edge \<open>v, w\<close> of the tree or of the path: the points of the edge, then the cell of
  \<open>v\<close>, then the cell of \<open>w\<close>.  The result is the grid and the length of the edge.
  When \<open>ncells\<close> is 0 the two steps are an infinity or NaN; the loop then has no round and
  the steps are not used.
\<close>

definition plot_edge ::
  "complex list \<Rightarrow> Endpoints \<Rightarrow> float64 \<Rightarrow> float64 \<Rightarrow> float64 \<Rightarrow> string \<Rightarrow> Edge \<Rightarrow> string list
     \<Rightarrow> panic + (string list \<times> float64)" where
  "plot_edge loc ep xscale yscale lenEP label e grid =
     (if edge_v e \<ge> length loc then Inl IndexOutOfRange
      else if edge_w e \<ge> length loc then Inl IndexOutOfRange
      else let beginEdge = loc ! edge_v e;
               endEdge = loc ! edge_w e;
               lenEdge = cmplx_Abs (complex_sub endEdge beginEdge)
           in case go_int (fdiv (fmul (Finite (of_int columns)) lenEdge) lenEP) of
                None \<Rightarrow> Inl ConversionUnspecified
              | Some ncells \<Rightarrow>
                  let beginX = Finite (Re beginEdge);
                      endX = Finite (Re endEdge);
                      stepX = fdiv (fsub endX beginX) (float_of_int ncells);
                      beginY = Finite (Im beginEdge);
                      endY = Finite (Im endEdge);
                      stepY = fdiv (fsub endY beginY) (float_of_int ncells)
                  in and_then (draw_edge (nat ncells) ep xscale yscale label stepX stepY
                                 beginX beginY grid)
                       (\<lambda>g1. and_then (put_cell g1 (cell_index ep xscale yscale beginX beginY)
                                         ''vertex'')
                          (\<lambda>g2. and_then (put_cell g2 (cell_index ep xscale yscale endX endY)
                                            ''vertex'')
                             (\<lambda>g3. Inr (g3, lenEdge)))))"

text \<open>
  The five writes that highlight a point: the cell, the cells below and above it, the
  cells to its right and to its left, in the order of the source.
\<close>

definition mark_plus :: "string list \<Rightarrow> int \<Rightarrow> int \<Rightarrow> string \<Rightarrow> panic + string list" where
  "mark_plus grid row col label =
     and_then (set_cell grid (wrap64 (row * columns + col)) label)
       (\<lambda>g1. and_then (set_cell g1 (wrap64 ((row + 1) * columns + col)) label)
          (\<lambda>g2. and_then (set_cell g2 (wrap64 ((row - 1) * columns + col)) label)
             (\<lambda>g3. and_then (set_cell g3 (wrap64 (row * columns + col + 1)) label)
                (\<lambda>g4. set_cell g4 (wrap64 (row * columns + col - 1)) label))))"

text \<open>
  The highlight of the point \<open>(x, y)\<close>: \<open>row\<close> and \<open>col\<close> are converted, then the five
  cells are written.
\<close>

definition mark_point ::
  "string list \<Rightarrow> Endpoints \<Rightarrow> float64 \<Rightarrow> float64 \<Rightarrow> real \<Rightarrow> real \<Rightarrow> string \<Rightarrow> panic + string list" where
  "mark_point grid ep xscale yscale x y label =
     (case cell_row ep yscale (Finite y) of
        None \<Rightarrow> Inl ConversionUnspecified
      | Some row \<Rightarrow>
          (case cell_col ep xscale (Finite x) of
             None \<Rightarrow> Inl ConversionUnspecified
           | Some col \<Rightarrow> mark_plus grid row col label))"

text \<open>
  The scale factors and the length of the diagonal of the bounds, which \<open>plotMST\<close> and
  \<open>plotSP\<close> both compute from the endpoints:
  \<open>xscale = (columns - 1) / (xmax - xmin)\<close>, \<open>yscale = (rows - 1) / (ymax - ymin)\<close> and
  \<open>lenEP = cmplx.Abs(complex(xmax, ymax) - complex(xmin, ymin))\<close>.  For \<open>xmax = xmin\<close> the
  scale is an infinity, and no point has a column.
\<close>

definition xscale_of :: "Endpoints \<Rightarrow> float64" where
  "xscale_of ep = fdiv (Finite (of_int columns - 1)) (fsub (Finite (xmax ep)) (Finite (xmin ep)))"

definition yscale_of :: "Endpoints \<Rightarrow> float64" where
  "yscale_of ep = fdiv (Finite (of_int rows - 1)) (fsub (Finite (ymax ep)) (Finite (ymin ep)))"

definition lenEP_of :: "Endpoints \<Rightarrow> float64" where
  "lenEP_of ep = cmplx_Abs (complex_sub (Complex (xmax ep) (ymax ep)) (Complex (xmin ep) (ymin ep)))"

section \<open>plotMST\<close>

text \<open>The loop \<open>for _, e := range p.mst[1:]\<close>: the grid and the sum \<open>distance\<close>.\<close>

fun plotMST_edges ::
  "complex list \<Rightarrow> Endpoints \<Rightarrow> float64 \<Rightarrow> float64 \<Rightarrow> float64 \<Rightarrow> Edge option list
     \<Rightarrow> string list \<times> float64 \<Rightarrow> panic + (string list \<times> float64)" where
  "plotMST_edges loc ep xscale yscale lenEP [] gd = Inr gd"
| "plotMST_edges loc ep xscale yscale lenEP (e # es) gd =
     (case e of
        None \<Rightarrow> Inl NilPointerDereference
      | Some ed \<Rightarrow>
          and_then (plot_edge loc ep xscale yscale lenEP ''edge'' ed (fst gd))
            (\<lambda>(g, lenEdge). plotMST_edges loc ep xscale yscale lenEP es (g, fadd (snd gd) lenEdge)))"

text \<open>The axis labels: \<open>n\<close> values that start at \<open>x\<close> and grow by \<open>incr\<close>.\<close>

fun axis_labels :: "nat \<Rightarrow> float64 \<Rightarrow> float64 \<Rightarrow> float64 list" where
  "axis_labels 0 x incr = []"
| "axis_labels (Suc n) x incr = x # axis_labels n (fadd x incr) incr"

text \<open>
  \<open>plotMST\<close> up to the end of the loop over the edges: a fresh grid of \<open>rows * columns\<close>
  empty labels, on which the edges \<open>p.mst[1:]\<close> are drawn.
\<close>

definition plotMST_loop :: "PrimMST \<Rightarrow> panic + (string list \<times> float64)" where
  "plotMST_loop p =
     (let ep = endpoints p;
          grid0 = replicate (nat (rows * columns)) [];
          xscale = xscale_of ep;
          yscale = yscale_of ep;
          lenEP = lenEP_of ep
      in if length (mst p) < 1 then Inl SliceBoundsOutOfRange
         else plotMST_edges (location p) ep xscale yscale lenEP (drop 1 (mst p)) (grid0, Finite 0))"

text \<open>
  \<open>plotMST\<close>: after the loop the start vertex \<open>p.location[0]\<close> is highlighted and the
  fields of the plot are filled.
\<close>

definition plotMST :: "PrimMST \<Rightarrow> panic + PrimMST" where
  "plotMST p =
     and_then (plotMST_loop p)
       (\<lambda>(g, total).
          let ep = endpoints p;
              xscale = xscale_of ep;
              yscale = yscale_of ep
          in if 0 \<ge> length (location p) then Inl IndexOutOfRange
             else let x = Re (location p ! 0);
                      y = Im (location p ! 0)
                  in and_then (mark_point g ep xscale yscale x y ''startvertexMSS'')
                       (\<lambda>g'. Inr (p\<lparr>plot := Some
                          \<lparr>Grid = g', Status = [],
                           Xlabel = axis_labels xlabels (Finite (xmin ep))
                                      (fdiv (fsub (Finite (xmax ep)) (Finite (xmin ep)))
                                         (Finite (real xlabels - 1))),
                           Ylabel = axis_labels ylabels (Finite (ymin ep))
                                      (fdiv (fsub (Finite (ymax ep)) (Finite (ymin ep)))
                                         (Finite (real ylabels - 1))),
                           Distance = Some total,
                           Vertices = Some (length (location p)),
                           Xmin = Some (xmin ep), Xmax = Some (xmax ep),
                           Ymin = Some (ymin ep), Ymax = Some (ymax ep),
                           StartLocation = Some (Complex x y),
                           SourceLocation = None, TargetLocation = None,
                           Source = None, Target = None, DistanceSP = None\<rparr>\<rparr>)))"

section \<open>findSP\<close>

text \<open>
  \<open>type DijksraSP struct\<close>.  The handler copies \<open>mst\<close>, \<open>graph\<close>, \<open>location\<close>, the
  endpoints and \<open>plot\<close> from the \<open>PrimMST\<close>: the slice \<open>mst\<close> and its edges are shared,
  not copied.  Every \<open>*Edge\<close> that \<open>adj\<close> and \<open>edgeTo\<close> hold is one of the pointers
  \<open>mst[1:]\<close>, which \<open>findMST\<close> allocates one by one; such a pointer is modelled by the
  number of its slot, and \<open>sp_mst\<close> holds the edge values, so that a write through the
  pointer is a write to the slot.  \<open>sp_plot\<close> is taken to be set: the handler assigns it
  the \<open>PlotT\<close> that \<open>plotMST\<close> has allocated.
\<close>

record DijksraSP =
  edgeTo :: "nat option list"
  distTo :: "real list"
  adj :: "nat list list"
  sp_mst :: "Edge option list"
  sp_graph :: "real list list"
  sp_location :: "complex list"
  sp_plot :: PlotT
  source :: int
  target :: int
  sp_endpoints :: Endpoints

text \<open>
  The loop \<open>for _, e := range dsp.mst[1:]\<close> that builds the adjacency list, over the
  slots with their numbers.
\<close>

fun build_adj :: "nat list list \<Rightarrow> (nat \<times> Edge option) list \<Rightarrow> panic + nat list list" where
  "build_adj a [] = Inr a"
| "build_adj a ((k, e) # rest) =
     (case e of
        None \<Rightarrow> Inl NilPointerDereference
      | Some ed \<Rightarrow>
          if edge_v ed \<ge> length a then Inl IndexOutOfRange
          else let a1 = a[edge_v ed := a ! edge_v ed @ [k]]
               in if edge_w ed \<ge> length a1 then Inl IndexOutOfRange
                  else build_adj (a1[edge_w ed := a1 ! edge_w ed @ [k]]) rest)"

text \<open>
  The body of the loop \<open>for _, e := range dsp.adj[v]\<close> of the closure \<open>relax\<close>, for the
  edge of slot \<open>k\<close>.  The state is the \<open>DijksraSP\<close> and the local priority queue.
\<close>

definition relax_body ::
  "nat \<Rightarrow> DijksraSP \<times> PriorityQueue \<Rightarrow> nat \<Rightarrow> panic + (DijksraSP \<times> PriorityQueue)" where
  "relax_body vv s k =
     (case s of (dsp, pq) \<Rightarrow>
        if k \<ge> length (sp_mst dsp) then Inl NilPointerDereference
        else case sp_mst dsp ! k of
          None \<Rightarrow> Inl NilPointerDereference
        | Some e \<Rightarrow>
            let ww = (if edge_w e = vv then edge_v e else edge_w e);
                dsp1 = (if edge_w e = vv
                        then dsp\<lparr>sp_mst := (sp_mst dsp)[k := Some \<lparr>edge_v = edge_w e, edge_w = edge_v e\<rparr>]\<rparr>
                        else dsp)
            in if vv \<ge> length (distTo dsp1) then Inl IndexOutOfRange
               else if vv \<ge> length (sp_graph dsp1) then Inl IndexOutOfRange
               else if ww \<ge> length (sp_graph dsp1 ! vv) then Inl IndexOutOfRange
               else let newDistance = distTo dsp1 ! vv + sp_graph dsp1 ! vv ! ww
                    in if ww \<ge> length (distTo dsp1) then Inl IndexOutOfRange
                       else if distTo dsp1 ! ww > newDistance then
                         (if ww \<ge> length (edgeTo dsp1) then Inl IndexOutOfRange
                          else let dsp2 = dsp1\<lparr>edgeTo := (edgeTo dsp1)[ww := Some k],
                                               distTo := (distTo dsp1)[ww := distTo dsp1 ! vv + sp_graph dsp1 ! vv ! ww]\<rparr>
                               in if ww < Len pq
                                  then Inr (dsp2, update pq ww newDistance)
                                  else Inr (dsp2, heap_Push pq
                                         \<lparr>edge = \<lparr>edge_v = vv, edge_w = ww\<rparr>, index = 0,
                                          distance = newDistance\<rparr>))
                       else Inr (dsp1, pq))"

fun relax_range ::
  "nat \<Rightarrow> DijksraSP \<times> PriorityQueue \<Rightarrow> nat list \<Rightarrow> panic + (DijksraSP \<times> PriorityQueue)" where
  "relax_range vv s [] = Inr s"
| "relax_range vv s (k # ks) = and_then (relax_body vv s k) (\<lambda>s'. relax_range vv s' ks)"

definition relax :: "nat \<Rightarrow> DijksraSP \<times> PriorityQueue \<Rightarrow> panic + (DijksraSP \<times> PriorityQueue)" where
  "relax vv s =
     (if vv \<ge> length (adj (fst s)) then Inl IndexOutOfRange
      else relax_range vv s (adj (fst s) ! vv))"

text \<open>
  The loop \<open>for pq.Len() > 0 { heap.Pop(&pq) }\<close> that empties the queue once the target
  is popped.
\<close>

partial_function (option) drain :: "PriorityQueue \<Rightarrow> PriorityQueue option" where
  "drain pq = (if Len pq > 0 then drain (snd (heap_Pop pq)) else Some pq)"

declare drain.simps [code]

text \<open>
  The loop \<open>for pq.Len() > 0\<close> of \<open>findSP\<close>: it returns when the item popped is the
  target, and when the queue is empty.
\<close>

partial_function (option) sp_loop ::
  "DijksraSP \<times> PriorityQueue \<Rightarrow> (panic + (DijksraSP \<times> PriorityQueue)) option" where
  "sp_loop s =
     (if Len (snd s) > 0 then
        (case heap_Pop (snd s) of (item, q) \<Rightarrow>
           if int (edge_w (edge item)) = target (fst s)
           then (case drain q of None \<Rightarrow> None | Some q' \<Rightarrow> Some (Inr (fst s, q')))
           else (case relax (edge_w (edge item)) (fst s, q) of
                   Inl e \<Rightarrow> Some (Inl e)
                 | Inr s' \<Rightarrow> sp_loop s'))
      else Some (Inr s))"

declare sp_loop.simps [code]

text \<open>
  \<open>findSP\<close> from the point where the form values \<open>sourcevert\<close> and \<open>targetvert\<close> have
  been converted by \<open>strconv.Atoi\<close> to the integers \<open>src\<close> and \<open>tgt\<close>.  The result is
  the error that the method returns (\<open>None\<close> for \<open>nil\<close>) and the \<open>DijksraSP\<close> as the
  method leaves it.
\<close>

definition findSP ::
  "DijksraSP \<Rightarrow> int \<Rightarrow> int \<Rightarrow> (panic + (go_error option \<times> DijksraSP)) option" where
  "findSP dsp0 src tgt =
     (let dsp = dsp0\<lparr>source := src, target := tgt\<rparr>;
          vertices = int (length (sp_location dsp))
      in if source dsp = target dsp \<or> source dsp < 0 \<or> target dsp < 0 \<or>
            source dsp > vertices - 1 \<or> target dsp > vertices - 1
         then Some (Inr (Some InvalidEndpoints, dsp))
         else let n = length (sp_location dsp);
                  dsp1 = dsp\<lparr>edgeTo := replicate n None,
                             distTo := replicate n MaxFloat64,
                             adj := replicate n []\<rparr>
              in if length (sp_mst dsp1) < 1 then Some (Inl SliceBoundsOutOfRange)
                 else case build_adj (adj dsp1) (drop 1 (enumerate 0 (sp_mst dsp1))) of
                   Inl e \<Rightarrow> Some (Inl e)
                 | Inr a \<Rightarrow>
                     if nat (source dsp1) \<ge> length (distTo dsp1) then Some (Inl IndexOutOfRange)
                     else let dsp2 = dsp1\<lparr>adj := a,
                                          distTo := (distTo dsp1)[nat (source dsp1) := 0]\<rparr>;
                              pq = heap_Init
                                     [\<lparr>edge = \<lparr>edge_v = nat (source dsp1), edge_w = nat (source dsp1)\<rparr>,
                                       index = 0, distance = 0\<rparr>]
                          in case sp_loop (dsp2, pq) of
                               None \<Rightarrow> None
                             | Some (Inl e) \<Rightarrow> Some (Inl e)
                             | Some (Inr s) \<Rightarrow> Some (Inr (None, fst s)))"

section \<open>plotSP\<close>

text \<open>
  The variables of the loop \<open>for { ... }\<close> that walks from the target to the source: the
  grid, the sum \<open>distance\<close>, the pointer \<open>e\<close> (a slot number, \<open>None\<close> when nil) and the
  edges of the tree, which the loop turns round.
\<close>

record walk_state =
  w_grid :: "string list"
  w_distance :: float64
  w_e :: "nat option"
  w_mst :: "Edge option list"

text \<open>
  One round of the loop: the edge is drawn, then the loop ends with \<open>firstEdge = e\<close> when
  \<open>e.v\<close> is the source; otherwise \<open>e = dsp.edgeTo[v]\<close> and the edge is turned round when
  \<open>e.w != v\<close>.  A run that never leaves the loop has the value \<open>None\<close>.
\<close>

partial_function (option) sp_walk ::
  "DijksraSP \<Rightarrow> float64 \<Rightarrow> float64 \<Rightarrow> float64 \<Rightarrow> walk_state \<Rightarrow> (panic + walk_state) option" where
  "sp_walk dsp xscale yscale lenEP s =
     (case w_e s of
        None \<Rightarrow> Some (Inl NilPointerDereference)
      | Some k \<Rightarrow>
          if k \<ge> length (w_mst s) then Some (Inl NilPointerDereference)
          else case w_mst s ! k of
            None \<Rightarrow> Some (Inl NilPointerDereference)
          | Some e \<Rightarrow>
              (case plot_edge (sp_location dsp) (sp_endpoints dsp) xscale yscale lenEP ''edgeSP'' e
                      (w_grid s) of
                 Inl err \<Rightarrow> Some (Inl err)
               | Inr (g, lenEdge) \<Rightarrow>
                   let s1 = s\<lparr>w_grid := g, w_distance := fadd (w_distance s) lenEdge\<rparr>
                   in if int (edge_v e) = source dsp then Some (Inr s1)
                      else if edge_v e \<ge> length (edgeTo dsp) then Some (Inl IndexOutOfRange)
                      else case edgeTo dsp ! edge_v e of
                        None \<Rightarrow> Some (Inl NilPointerDereference)
                      | Some k' \<Rightarrow>
                          if k' \<ge> length (w_mst s1) then Some (Inl NilPointerDereference)
                          else case w_mst s1 ! k' of
                            None \<Rightarrow> Some (Inl NilPointerDereference)
                          | Some e' \<Rightarrow>
                              sp_walk dsp xscale yscale lenEP
                                (s1\<lparr>w_e := Some k',
                                    w_mst := (if edge_w e' \<noteq> edge_v e
                                              then (w_mst s1)[k' := Some \<lparr>edge_v = edge_w e', edge_w = edge_v e'\<rparr>]
                                              else w_mst s1)\<rparr>)))"

declare sp_walk.simps [code]

text \<open>
  \<open>plotSP\<close>.  The method returns the error \<open>distance to vertex ... not found\<close> before it
  writes anything; otherwise it draws the path, highlights the target (\<open>vertexSP2\<close>) and
  the source (\<open>vertexSP1\<close>) and fills the fields of the plot.
\<close>

definition plotSP :: "DijksraSP \<Rightarrow> (panic + (go_error option \<times> DijksraSP)) option" where
  "plotSP dsp =
     (if length (distTo dsp) = 0 then Some (Inr (Some (DistanceNotFound (target dsp)), dsp))
      else if target dsp < 0 \<or> target dsp \<ge> int (length (distTo dsp)) then Some (Inl IndexOutOfRange)
      else if distTo dsp ! nat (target dsp) = MaxFloat64
        then Some (Inr (Some (DistanceNotFound (target dsp)), dsp))
      else
        let ep = sp_endpoints dsp;
            xscale = xscale_of ep;
            yscale = yscale_of ep;
            lenEP = lenEP_of ep
        in if nat (target dsp) \<ge> length (edgeTo dsp) then Some (Inl IndexOutOfRange)
           else case sp_walk dsp xscale yscale lenEP
                       \<lparr>w_grid = Grid (sp_plot dsp), w_distance = Finite 0,
                        w_e = edgeTo dsp ! nat (target dsp), w_mst = sp_mst dsp\<rparr> of
             None \<Rightarrow> None
           | Some (Inl err) \<Rightarrow> Some (Inl err)
           | Some (Inr s) \<Rightarrow>
               Some (case edgeTo dsp ! nat (target dsp) of
                  None \<Rightarrow> Inl NilPointerDereference
                | Some kt \<Rightarrow>
                   (case w_mst s ! kt of
                      None \<Rightarrow> Inl NilPointerDereference
                    | Some e \<Rightarrow>
                       if edge_w e \<ge> length (sp_location dsp) then Inl IndexOutOfRange
                       else
                         let x = Re (sp_location dsp ! edge_w e);
                             y = Im (sp_location dsp ! edge_w e)
                         in and_then (mark_point (w_grid s) ep xscale yscale x y ''vertexSP2'')
                              (\<lambda>g1. case w_e s of
                                 None \<Rightarrow> Inl NilPointerDereference
                               | Some kf \<Rightarrow>
                                  (case w_mst s ! kf of
                                     None \<Rightarrow> Inl NilPointerDereference
                                   | Some firstEdge \<Rightarrow>
                                      if edge_v firstEdge \<ge> length (sp_location dsp)
                                      then Inl IndexOutOfRange
                                      else
                                        let x' = Re (sp_location dsp ! edge_v firstEdge);
                                            y' = Im (sp_location dsp ! edge_v firstEdge)
                                        in and_then (mark_point g1 ep xscale yscale x' y'
                                                       ''vertexSP1'')
                                             (\<lambda>g2. Inr (None,
                                                dsp\<lparr>sp_mst := w_mst s,
                                                    sp_plot := (sp_plot dsp)
                                                      \<lparr>Grid := g2,
                                                       TargetLocation := Some (Complex x y),
                                                       Target := Some (edge_w e),
                                                       SourceLocation := Some (Complex x' y'),
                                                       Source := Some (edge_v firstEdge),
                                                       DistanceSP := Some (w_distance s)\<rparr>\<rparr>)))))))"


section \<open>The cells of an edge and of a vertex\<close>

text \<open>
  The indices that the drawing loop of an edge writes, in the order of the loop, and the
  index of the cell of a vertex; an index is \<open>None\<close> where a conversion has no value.
\<close>

fun sample_cells ::
  "nat \<Rightarrow> Endpoints \<Rightarrow> float64 \<Rightarrow> float64 \<Rightarrow> float64 \<Rightarrow> float64 \<Rightarrow> float64 \<Rightarrow> float64
     \<Rightarrow> int option list" where
  "sample_cells 0 ep xscale yscale stepX stepY x y = []"
| "sample_cells (Suc n) ep xscale yscale stepX stepY x y =
     cell_index ep xscale yscale x y #
     sample_cells n ep xscale yscale stepX stepY (fadd x stepX) (fadd y stepY)"

definition edge_cells ::
  "complex list \<Rightarrow> Endpoints \<Rightarrow> float64 \<Rightarrow> float64 \<Rightarrow> float64 \<Rightarrow> Edge \<Rightarrow> int option list" where
  "edge_cells loc ep xscale yscale lenEP e =
     (let beginEdge = loc ! edge_v e;
          endEdge = loc ! edge_w e;
          lenEdge = cmplx_Abs (complex_sub endEdge beginEdge)
      in case go_int (fdiv (fmul (Finite (of_int columns)) lenEdge) lenEP) of
           None \<Rightarrow> []
         | Some ncells \<Rightarrow>
             sample_cells (nat ncells) ep xscale yscale
               (fdiv (fsub (Finite (Re endEdge)) (Finite (Re beginEdge))) (float_of_int ncells))
               (fdiv (fsub (Finite (Im endEdge)) (Finite (Im beginEdge))) (float_of_int ncells))
               (Finite (Re beginEdge)) (Finite (Im beginEdge)))"

definition vertex_cell ::
  "complex list \<Rightarrow> Endpoints \<Rightarrow> float64 \<Rightarrow> float64 \<Rightarrow> nat \<Rightarrow> int option" where
  "vertex_cell loc ep xscale yscale u =
     cell_index ep xscale yscale (Finite (Re (loc ! u))) (Finite (Im (loc ! u)))"

text \<open>The same for the vertices and the edges of a \<open>PrimMST\<close>, as \<open>plotMST\<close> maps them.\<close>

definition mst_vertex_cell :: "PrimMST \<Rightarrow> nat \<Rightarrow> int option" where
  "mst_vertex_cell p u =
     vertex_cell (location p) (endpoints p) (xscale_of (endpoints p)) (yscale_of (endpoints p)) u"

definition mst_edge_cells :: "PrimMST \<Rightarrow> Edge \<Rightarrow> int option list" where
  "mst_edge_cells p e =
     edge_cells (location p) (endpoints p) (xscale_of (endpoints p)) (yscale_of (endpoints p))
       (lenEP_of (endpoints p)) e"

text \<open>
  The label that the loop over the edges \<open>es\<close> leaves in the cell \<open>c\<close> that held \<open>l\<close>: an
  edge writes \<open>vertex\<close> to the cells of its two endpoints after it has written \<open>edge\<close> to
  the cells of its sample points.  \<open>vc\<close> gives the cell of a vertex and \<open>ec\<close> the cells of
  the sample points of an edge.
\<close>

definition edge_label ::
  "(nat \<Rightarrow> int option) \<Rightarrow> (Edge \<Rightarrow> int option list) \<Rightarrow> Edge \<Rightarrow> int \<Rightarrow> string \<Rightarrow> string" where
  "edge_label vc ec e c l =
     (if Some c = vc (edge_v e) \<or> Some c = vc (edge_w e) then ''vertex''
      else if Some c \<in> set (ec e) then ''edge'' else l)"

fun label_after ::
  "(nat \<Rightarrow> int option) \<Rightarrow> (Edge \<Rightarrow> int option list) \<Rightarrow> Edge option list \<Rightarrow> int \<Rightarrow> string
     \<Rightarrow> string" where
  "label_after vc ec [] c l = l"
| "label_after vc ec (eo # es) c l =
     label_after vc ec es c (case eo of None \<Rightarrow> l | Some e \<Rightarrow> edge_label vc ec e c l)"

text \<open>
  An entry of the list of edges marks the cell \<open>c\<close>: it is an edge with an endpoint in
  \<open>c\<close>; it samples \<open>c\<close>: it is an edge with a sample point in \<open>c\<close>.
\<close>

definition marks :: "(nat \<Rightarrow> int option) \<Rightarrow> int \<Rightarrow> Edge option \<Rightarrow> bool" where
  "marks vc c eo =
     (case eo of None \<Rightarrow> False | Some e \<Rightarrow> Some c = vc (edge_v e) \<or> Some c = vc (edge_w e))"

definition samples :: "(Edge \<Rightarrow> int option list) \<Rightarrow> int \<Rightarrow> Edge option \<Rightarrow> bool" where
  "samples ec c eo = (case eo of None \<Rightarrow> False | Some e \<Rightarrow> Some c \<in> set (ec e))"

text \<open>
  The edge of slot \<open>k\<close> has an endpoint in the cell \<open>c\<close>; it has a sample point there.
  \<open>vertex_last p c\<close>: some edge with an endpoint in \<open>c\<close> is followed only by edges that
  have no sample point in \<open>c\<close> or have an endpoint there as well, so that the last write
  to \<open>c\<close> is the label \<open>vertex\<close>.
\<close>

definition endpoint_in :: "PrimMST \<Rightarrow> int option \<Rightarrow> nat \<Rightarrow> bool" where
  "endpoint_in p c k =
     (case mst p ! k of
        None \<Rightarrow> False
      | Some e \<Rightarrow> c = mst_vertex_cell p (edge_v e) \<or> c = mst_vertex_cell p (edge_w e))"

definition sample_in :: "PrimMST \<Rightarrow> int option \<Rightarrow> nat \<Rightarrow> bool" where
  "sample_in p c k =
     (case mst p ! k of None \<Rightarrow> False | Some e \<Rightarrow> c \<in> set (mst_edge_cells p e))"

definition vertex_last :: "PrimMST \<Rightarrow> int option \<Rightarrow> bool" where
  "vertex_last p c =
     (\<exists>k \<in> {1 ..< length (mst p)}. endpoint_in p c k \<and>
        (\<forall>j \<in> {Suc k ..< length (mst p)}. sample_in p c j \<longrightarrow> endpoint_in p c j))"

section \<open>Comparing trees\<close>

text \<open>
  Two slots hold the same unordered pair of vertices: both are nil, or both hold an edge
  and the sets of the two endpoints are equal.  Two trees hold the same edges when they
  have the same number of slots and every slot holds the same unordered pair.
\<close>

definition same_pair :: "Edge option \<Rightarrow> Edge option \<Rightarrow> bool" where
  "same_pair a b =
     (case (a, b) of
        (None, None) \<Rightarrow> True
      | (Some e, Some e') \<Rightarrow> {edge_v e, edge_w e} = {edge_v e', edge_w e'}
      | _ \<Rightarrow> False)"

definition same_edges :: "Edge option list \<Rightarrow> Edge option list \<Rightarrow> bool" where
  "same_edges m m' = list_all2 same_pair m m'"

text \<open>What a step of the shortest-path search leaves as it is.\<close>

definition sp_inv :: "DijksraSP \<Rightarrow> DijksraSP \<Rightarrow> bool" where
  "sp_inv d d' \<longleftrightarrow>
     same_edges (sp_mst d) (sp_mst d') \<and> target d' = target d \<and> source d' = source d \<and>
     length (distTo d') = length (distTo d) \<and> sp_location d' = sp_location d \<and>
     sp_plot d' = sp_plot d \<and> sp_endpoints d' = sp_endpoints d"

section \<open>What a run shows\<close>

text \<open>
  The label of the cell \<open>c\<close> of the grid when the loop of \<open>plotMST\<close> over the edges has
  ended; \<open>None\<close> when the loop does not end, and when \<open>c\<close> is no cell of the grid.
\<close>

definition loop_label :: "PrimMST \<Rightarrow> int option \<Rightarrow> string option" where
  "loop_label p c =
     (case plotMST_loop p of
        Inl e \<Rightarrow> None
      | Inr gd \<Rightarrow>
          (case c of
             None \<Rightarrow> None
           | Some i \<Rightarrow> if 0 \<le> i \<and> i < int (length (fst gd)) then Some (fst gd ! nat i) else None))"

text \<open>
  A query as the handler runs it: \<open>findSP\<close>, then \<open>plotSP\<close> on what \<open>findSP\<close> has left,
  whether \<open>findSP\<close> returned an error or not.  The result is the two errors and the final
  \<open>DijksraSP\<close>; \<open>sp_result\<close> keeps the errors and the length of the path that the plot
  shows.
\<close>

definition sp_query ::
  "DijksraSP \<Rightarrow> int \<Rightarrow> int \<Rightarrow> (panic + (go_error option \<times> go_error option \<times> DijksraSP)) option" where
  "sp_query dsp s t =
     (case findSP dsp s t of
        None \<Rightarrow> None
      | Some (Inl e) \<Rightarrow> Some (Inl e)
      | Some (Inr r1) \<Rightarrow>
          (case plotSP (snd r1) of
             None \<Rightarrow> None
           | Some (Inl e) \<Rightarrow> Some (Inl e)
           | Some (Inr r2) \<Rightarrow> Some (Inr (fst r1, fst r2, snd r2))))"

definition sp_result ::
  "DijksraSP \<Rightarrow> int \<Rightarrow> int \<Rightarrow> (panic + (go_error option \<times> go_error option \<times> float64 option)) option" where
  "sp_result dsp s t =
     (case sp_query dsp s t of
        None \<Rightarrow> None
      | Some (Inl e) \<Rightarrow> Some (Inl e)
      | Some (Inr r) \<Rightarrow> Some (Inr (fst r, fst (snd r), DistanceSP (sp_plot (snd (snd r))))))"

section \<open>What findMST maintains\<close>

text \<open>
  \<open>heap.Swap\<close> writes the position into the items it moves and \<open>Push\<close> writes it into the
  item it appends: in an \<open>indexed\<close> queue every item records the position where it lies,
  which is the position that \<open>update\<close> hands to \<open>heap.Fix\<close>.
\<close>

definition indexed :: "PriorityQueue \<Rightarrow> bool" where
  "indexed h \<longleftrightarrow> (\<forall>k < length h. index (h ! k) = int k)"

text \<open>
  The matrix that \<open>findDistances\<close> builds is square, and \<open>visit\<close> reads row \<open>v\<close> of it at
  every \<open>w\<close>.  Off the diagonal the entries are distances of points; \<open>finite_off_diagonal\<close>
  says that they lie below the value \<open>math.MaxFloat64\<close> that seeds \<open>distTo\<close>.
\<close>

definition square :: "real list list \<Rightarrow> bool" where
  "square g \<longleftrightarrow> (\<forall>v < length g. length (g ! v) = length g)"

definition finite_off_diagonal :: "real list list \<Rightarrow> bool" where
  "finite_off_diagonal g \<longleftrightarrow>
     (\<forall>v < length g. \<forall>w < length g. v \<noteq> w \<longrightarrow> g ! v ! w < MaxFloat64)"

text \<open>
  A pair \<open>(v, w)\<close> is \<open>relaxable\<close> when \<open>graph[v][w] < distTo[w]\<close>.  \<open>visit\<close> only lowers
  \<open>distTo\<close>, and it pushes an item only when it lowers an entry, which takes a pair out
  of this set; a pop shortens the queue.  So \<open>mst_measure\<close> drops in every turn of the
  loop of \<open>findMST\<close>.
\<close>

definition relaxable :: "real list list \<Rightarrow> real list \<Rightarrow> (nat \<times> nat) set" where
  "relaxable g dt = {(v, w). v < length g \<and> w < length dt \<and> g ! v ! w < dt ! w}"

definition mst_measure :: "real list list \<Rightarrow> mst_state \<Rightarrow> nat" where
  "mst_measure g s = 2 * card (relaxable g (m_distTo s)) + length (m_pq s)"

text \<open>
  Slot \<open>w\<close> of \<open>p.mst\<close> is either still \<open>nil\<close>, and then \<open>distTo[w]\<close> is still
  \<open>math.MaxFloat64\<close>, or it holds an edge \<open>{v, w}\<close> from another vertex \<open>v\<close> to \<open>w\<close>, and
  \<open>w\<close> is not the root.
\<close>

definition slot_ok :: "nat \<Rightarrow> nat \<Rightarrow> Edge option \<Rightarrow> real \<Rightarrow> bool" where
  "slot_ok n w e d =
     (case e of None \<Rightarrow> d = MaxFloat64
      | Some e' \<Rightarrow> edge_w e' = w \<and> edge_v e' < n \<and> edge_v e' \<noteq> w \<and> w \<noteq> 0)"

text \<open>
  \<open>mst_inv\<close> holds whenever \<open>visit\<close> runs: the slices have one slot per vertex, the queue
  is indexed, its items name vertices, and every slot of the tree is as above.
  \<open>loop_inv\<close> holds at the head of the loop: before the first pop the queue holds the
  root only and nothing is marked; from then on the root is marked and \<open>distTo\<close> of
  every other vertex is below \<open>math.MaxFloat64\<close>.
\<close>

definition mst_inv :: "real list list \<Rightarrow> mst_state \<Rightarrow> bool" where
  "mst_inv g s \<longleftrightarrow>
     length (m_mst s) = length g \<and> length (m_marked s) = length g \<and>
     length (m_distTo s) = length g \<and> indexed (m_pq s) \<and>
     (\<forall>e \<in> edge ` set (m_pq s). edge_w e < length g) \<and>
     (\<forall>w < length g. slot_ok (length g) w (m_mst s ! w) (m_distTo s ! w))"

definition loop_inv :: "real list list \<Rightarrow> mst_state \<Rightarrow> bool" where
  "loop_inv g s \<longleftrightarrow>
     mst_inv g s \<and>
     (if m_marked s ! 0
      then \<forall>w < length g. 1 \<le> w \<longrightarrow> m_distTo s ! w < MaxFloat64
      else m_pq s \<noteq> [] \<and> (\<forall>e \<in> edge ` set (m_pq s). edge_w e = 0) \<and>
           (\<forall>w < length g. \<not> m_marked s ! w))"

section \<open>Concrete inputs\<close>

text \<open>
  Three points on a line, at 0, 1 and 2, in the bounds \<open>(0, 0)\<close> to \<open>(897, 1196)\<close>.
\<close>

definition line3 :: PrimMST where
  "line3 = \<lparr>graph = [], location = [Complex 0 0, Complex 1 0, Complex 2 0], mst = [],
            endpoints = \<lparr>xmin = 0, xmax = 897, ymin = 0, ymax = 1196\<rparr>, plot = None\<rparr>"

text \<open>
  Four points on a line: vertex 0 at 0, vertex 1 at 2, vertex 2 at 1 and vertex 3 at -1, in
  the bounds \<open>(-10, -10)\<close> to \<open>(887, 1186)\<close>; their distance matrix, the tree that
  \<open>findMST\<close> builds for them, and the \<open>DijksraSP\<close> that the handler sets up from them
  around a plot \<open>pl\<close>.
\<close>

definition bounds4 :: Endpoints where
  "bounds4 = \<lparr>xmin = - 10, xmax = 887, ymin = - 10, ymax = 1186\<rparr>"

definition line4 :: PrimMST where
  "line4 = \<lparr>graph = [], location = [Complex 0 0, Complex 2 0, Complex 1 0, Complex (- 1) 0],
            mst = [], endpoints = bounds4, plot = None\<rparr>"

definition graph4 :: "real list list" where
  "graph4 = [[MaxFloat64, 2, 1, 1], [2, MaxFloat64, 1, 3], [1, 1, MaxFloat64, 2],
             [1, 3, 2, MaxFloat64]]"

definition tree4 :: "Edge option list" where
  "tree4 = [None, Some \<lparr>edge_v = 2, edge_w = 1\<rparr>, Some \<lparr>edge_v = 0, edge_w = 2\<rparr>,
            Some \<lparr>edge_v = 0, edge_w = 3\<rparr>]"

definition query4 :: "PlotT \<Rightarrow> DijksraSP" where
  "query4 pl = \<lparr>edgeTo = [], distTo = [], adj = [], sp_mst = tree4, sp_graph = graph4,
                sp_location = [Complex 0 0, Complex 2 0, Complex 1 0, Complex (- 1) 0],
                sp_plot = pl, source = 0, target = 0, sp_endpoints = bounds4\<rparr>"

text \<open>A plot whose grid has \<open>rows * columns\<close> empty cells and whose fields are empty.\<close>

definition empty_plot :: PlotT where
  "empty_plot = \<lparr>Grid = replicate (nat (rows * columns)) [], Status = [], Xlabel = [],
                  Ylabel = [], Distance = None, Vertices = None, Xmin = None, Xmax = None,
                  Ymin = None, Ymax = None, StartLocation = None, SourceLocation = None,
                  TargetLocation = None, Source = None, Target = None, DistanceSP = None\<rparr>"


text \<open>
  Four points on the line \<open>y = 4\<close>: vertex 0 at 5, vertex 1 at 12, vertex 2 at 16 and
  vertex 3 at 6, in the bounds \<open>(0, 0)\<close> to \<open>(897, 1196)\<close>, with the distance matrix of
  \<open>findDistances\<close> and the tree that \<open>findMST\<close> builds for them.
\<close>

definition bounds0 :: Endpoints where
  "bounds0 = \<lparr>xmin = 0, xmax = 897, ymin = 0, ymax = 1196\<rparr>"

definition row4 :: PrimMST where
  "row4 = \<lparr>graph = [[MaxFloat64, 7, 11, 1], [7, MaxFloat64, 4, 6], [11, 4, MaxFloat64, 10],
                     [1, 6, 10, MaxFloat64]],
           location = [Complex 5 4, Complex 12 4, Complex 16 4, Complex 6 4],
           mst = [None, Some \<lparr>edge_v = 2, edge_w = 1\<rparr>, Some \<lparr>edge_v = 3, edge_w = 2\<rparr>,
                  Some \<lparr>edge_v = 0, edge_w = 3\<rparr>],
           endpoints = bounds0, plot = None\<rparr>"

text \<open>
  Two points on the upper border \<open>y = ymax\<close> of the same bounds, vertex 0 at 5 and
  vertex 1 at 6, with their distance matrix and their tree.
\<close>

definition top2 :: PrimMST where
  "top2 = \<lparr>graph = [[MaxFloat64, 1], [1, MaxFloat64]],
           location = [Complex 5 1196, Complex 6 1196],
           mst = [None, Some \<lparr>edge_v = 0, edge_w = 1\<rparr>],
           endpoints = bounds0, plot = None\<rparr>"

text \<open>
  Five points on the line \<open>y = 4\<close>: vertex 0 at 21, vertex 1 at 14, vertex 2 at 5,
  vertex 3 at 13 and vertex 4 at 17, in the same bounds, with their distance matrix and
  the tree that \<open>findMST\<close> builds for them.
\<close>

definition row5 :: PrimMST where
  "row5 = \<lparr>graph = [[MaxFloat64, 7, 16, 8, 4], [7, MaxFloat64, 9, 1, 3],
                     [16, 9, MaxFloat64, 8, 12], [8, 1, 8, MaxFloat64, 4],
                     [4, 3, 12, 4, MaxFloat64]],
           location = [Complex 21 4, Complex 14 4, Complex 5 4, Complex 13 4, Complex 17 4],
           mst = [None, Some \<lparr>edge_v = 3, edge_w = 1\<rparr>, Some \<lparr>edge_v = 4, edge_w = 2\<rparr>,
                  Some \<lparr>edge_v = 4, edge_w = 3\<rparr>, Some \<lparr>edge_v = 0, edge_w = 4\<rparr>],
           endpoints = bounds0, plot = None\<rparr>"

section \<open>Facts used to evaluate the program on concrete inputs\<close>

lemma MaxFloat64_numeral [code]:
  "MaxFloat64 = 179769313486231570814527423731704356798070567525844996598917476803157260780028538760589558632766878171540458953514382464234321326889464182768467546703537516986049910576551282076245490090389328944075868508455133942304583236903222948165808559332123348274797826204144723168738177180919299881250404026184124858368"
  by (simp add: MaxFloat64_def)

lemma cmod_horizontal: "cmod (Complex a c - Complex b c) = \<bar>a - b\<bar>"
  by (simp add: cmod_def)

lemma upt_3: "[0 ..< 3] = [0, 1, 2]"
  by (simp add: upt_rec)

lemma upt_4: "[0 ..< 4] = [0, 1, 2, 3]"
  by (simp add: upt_rec)

lemma findDistances_line3:
  "findDistances line3 =
     line3\<lparr>graph := [[MaxFloat64, 1, 2], [1, MaxFloat64, 1], [2, 1, MaxFloat64]]\<rparr>"
  by (simp add: findDistances_def line3_def upt_3 cmod_horizontal del: complex_diff)

lemma findMST_run_line3:
  "findMST_run (line3\<lparr>graph := [[MaxFloat64, 1, 2], [1, MaxFloat64, 1], [2, 1, MaxFloat64]]\<rparr>) =
     Some (Inr \<lparr>m_mst = [None, Some \<lparr>edge_v = 0, edge_w = 1\<rparr>, Some \<lparr>edge_v = 1, edge_w = 2\<rparr>],
                m_marked = [True, True, True],
                m_distTo = [MaxFloat64, 1, 1],
                m_pq = [], m_pops = 4\<rparr>)"
  unfolding line3_def by code_simp

section \<open>findMST: the number of pops, the empty input, repeated runs\<close>

lemma findMST_init_mst: "findMST_init (p\<lparr>mst := m\<rparr>) = findMST_init p"
  by (simp add: findMST_init_def)

lemma findMST_run_mst: "findMST_run (p\<lparr>mst := m\<rparr>) = findMST_run p"
  by (simp add: findMST_run_def findMST_init_mst cong: sum.case_cong)

text \<open>
  C1.  On the three points 0, 1, 2 of a line the loop of \<open>findMST\<close> ends with an empty
  queue and a tree in the slots 1 and 2, but it has popped four items, not three: when
  vertex 1 is visited, the better edge to vertex 2 is looked up at key 2 of the queue,
  which is a heap position and not a vertex, so a second item for vertex 2 is pushed
  while the first stays in the queue.
\<close>

theorem findMST_pops_four_of_three:
  "findMST_run (findDistances line3) =
     Some (Inr \<lparr>m_mst = [None, Some \<lparr>edge_v = 0, edge_w = 1\<rparr>, Some \<lparr>edge_v = 1, edge_w = 2\<rparr>],
                m_marked = [True, True, True],
                m_distTo = [MaxFloat64, 1, 1],
                m_pq = [], m_pops = 4\<rparr>)"
  by (simp only: findDistances_line3 findMST_run_line3)

text \<open>
  C2.  With no vertex, \<open>findMST\<close> does not return: the statement \<open>distTo[0] =
  math.MaxFloat64\<close> that seeds the root indexes an empty slice.
\<close>

theorem findMST_empty_panics:
  "findMST (p\<lparr>location := []\<rparr>) = Some (Inl IndexOutOfRange)"
  by (simp add: findMST_def findMST_run_def findMST_init_def)

text \<open>
  C8.  \<open>findMST\<close> reads the distance matrix and the number of vertices only, and the tree
  it held before is replaced: a second run on the result of a first run returns the same
  \<open>PrimMST\<close>, with the same edge in every slot.
\<close>

theorem findMST_twice:
  "findMST p = Some (Inr p') \<Longrightarrow> findMST p' = Some (Inr p')"
  by (auto simp: findMST_def findMST_run_mst split: option.splits sum.splits)

theorem findMST_twice_witness:
  "findMST (findDistances line3) =
     Some (Inr (findDistances line3
        \<lparr>mst := [None, Some \<lparr>edge_v = 0, edge_w = 1\<rparr>, Some \<lparr>edge_v = 1, edge_w = 2\<rparr>]\<rparr>)) \<and>
   findMST (findDistances line3
        \<lparr>mst := [None, Some \<lparr>edge_v = 0, edge_w = 1\<rparr>, Some \<lparr>edge_v = 1, edge_w = 2\<rparr>]\<rparr>) =
     Some (Inr (findDistances line3
        \<lparr>mst := [None, Some \<lparr>edge_v = 0, edge_w = 1\<rparr>, Some \<lparr>edge_v = 1, edge_w = 2\<rparr>]\<rparr>))"
proof -
  have first: "findMST (findDistances line3) =
     Some (Inr (findDistances line3
        \<lparr>mst := [None, Some \<lparr>edge_v = 0, edge_w = 1\<rparr>, Some \<lparr>edge_v = 1, edge_w = 2\<rparr>]\<rparr>))"
    by (simp add: findMST_def findDistances_line3 findMST_run_line3)
  from first findMST_twice [OF first] show ?thesis by simp
qed


section \<open>findSP and plotSP\<close>

lemma and_then_Inr: "and_then r f = Inr y \<longleftrightarrow> (\<exists>x. r = Inr x \<and> f x = Inr y)"
  by (cases r) (simp_all add: and_then_def)

lemma plotSP_guard:
  "length (distTo dsp) = 0 \<or>
     (0 \<le> target dsp \<and> target dsp < int (length (distTo dsp)) \<and>
      distTo dsp ! nat (target dsp) = MaxFloat64)
   \<Longrightarrow> plotSP dsp = Some (Inr (Some (DistanceNotFound (target dsp)), dsp))"
  by (auto simp: plotSP_def)

lemma same_pair_refl: "same_pair a a"
  by (simp add: same_pair_def split: option.splits)

lemma same_pair_trans: "same_pair a b \<Longrightarrow> same_pair b c \<Longrightarrow> same_pair a c"
  by (auto simp: same_pair_def split: option.splits)

lemma same_edges_refl: "same_edges m m"
  by (simp add: same_edges_def list_all2_refl same_pair_refl)

lemma same_edges_trans: "same_edges a b \<Longrightarrow> same_edges b c \<Longrightarrow> same_edges a c"
  unfolding same_edges_def list_all2_conv_all_nth using same_pair_trans by metis

lemma same_edges_flip:
  "k < length m \<Longrightarrow> m ! k = Some e \<Longrightarrow>
   same_edges m (m[k := Some \<lparr>edge_v = edge_w e, edge_w = edge_v e\<rparr>])"
  unfolding same_edges_def list_all2_conv_all_nth
  by (auto simp: nth_list_update same_pair_def same_pair_refl split: option.splits)

lemma sp_inv_refl: "sp_inv d d"
  by (simp add: sp_inv_def same_edges_refl)

lemma sp_inv_trans: "sp_inv a b \<Longrightarrow> sp_inv b c \<Longrightarrow> sp_inv a c"
  by (auto simp: sp_inv_def intro: same_edges_trans)

lemma relax_body_inv:
  "relax_body vv (d, q) k = Inr (d', q') \<Longrightarrow> sp_inv d d'"
  by (auto simp: relax_body_def Let_def sp_inv_def same_edges_refl same_edges_flip
           split: option.splits if_splits)

lemma relax_range_inv:
  "relax_range vv (d, q) ks = Inr (d', q') \<Longrightarrow> sp_inv d d'"
proof (induction ks arbitrary: d q)
  case Nil
  then show ?case by (simp add: sp_inv_refl)
next
  case (Cons k ks)
  from Cons.prems obtain d1 q1 where
    b: "relax_body vv (d, q) k = Inr (d1, q1)" and r: "relax_range vv (d1, q1) ks = Inr (d', q')"
    by (auto simp: and_then_Inr)
  from relax_body_inv[OF b] Cons.IH[OF r] show ?case by (rule sp_inv_trans)
qed

lemma relax_inv: "relax vv (d, q) = Inr (d', q') \<Longrightarrow> sp_inv d d'"
  by (auto simp: relax_def split: if_splits dest: relax_range_inv)

lemma sp_loop_inv_aux:
  "sp_loop s = Some r \<Longrightarrow> \<forall>s'. r = Inr s' \<longrightarrow> sp_inv (fst s) (fst s')"
proof (induction rule: sp_loop.raw_induct[rotated, consumes 1, case_names step])
  case (step f s r)
  note IH = step(1) and body = step(2)
  show ?case
  proof (cases "Len (snd s) > 0")
    case False
    with body show ?thesis by (auto simp: sp_inv_refl)
  next
    case True
    obtain item q where pop: "heap_Pop (snd s) = (item, q)" by (cases "heap_Pop (snd s)")
    show ?thesis
    proof (cases "int (edge_w (edge item)) = target (fst s)")
      case True
      with body \<open>Len (snd s) > 0\<close> pop show ?thesis
        by (auto simp: sp_inv_refl split: option.splits)
    next
      case False
      note not_target = this
      show ?thesis
      proof (cases "relax (edge_w (edge item)) (fst s, q)")
        case (Inl e)
        with body \<open>Len (snd s) > 0\<close> pop not_target show ?thesis by auto
      next
        case (Inr s1)
        with body \<open>Len (snd s) > 0\<close> pop not_target have rec: "f s1 = Some r" by simp
        from Inr have a: "sp_inv (fst s) (fst s1)" by (cases s1) (auto dest: relax_inv)
        from IH[OF rec] have b: "\<forall>s'. r = Inr s' \<longrightarrow> sp_inv (fst s1) (fst s')" .
        from a b show ?thesis by (auto intro: sp_inv_trans)
      qed
    qed
  qed
qed

lemma findSP_inv:
  "findSP dsp s t = Some (Inr (err, d')) \<Longrightarrow>
     same_edges (sp_mst dsp) (sp_mst d') \<and> target d' = t \<and> source d' = s \<and>
     sp_location d' = sp_location dsp \<and> sp_plot d' = sp_plot dsp \<and>
     sp_endpoints d' = sp_endpoints dsp \<and>
     (err = None \<longrightarrow> length (distTo d') = length (sp_location dsp) \<and> 0 \<le> t \<and> t < int (length (sp_location dsp)))"
  apply (simp add: findSP_def Let_def split: if_splits sum.splits option.splits)
   apply (auto simp: same_edges_refl)[1]
  apply (auto dest!: sp_loop_inv_aux simp: sp_inv_def)
  done


lemma sp_walk_inv_aux:
  "sp_walk dsp xscale yscale lenEP s = Some r \<Longrightarrow>
     \<forall>s'. r = Inr s' \<longrightarrow> same_edges (w_mst s) (w_mst s')"
proof (induction rule: sp_walk.raw_induct[rotated, consumes 1, case_names step])
  case (step f dsp xscale yscale lenEP s r)
  note IH = step(1) and body = step(2)
  show ?case
  proof (intro allI impI)
    fix s' assume r: "r = Inr s'"
    from body r obtain k e g lenEdge where
      k: "w_e s = Some k" "k < length (w_mst s)" "w_mst s ! k = Some e" and
      pe: "plot_edge (sp_location dsp) (sp_endpoints dsp) xscale yscale lenEP ''edgeSP'' e (w_grid s)
             = Inr (g, lenEdge)"
      by (auto split: option.splits if_splits sum.splits)
    define s1 where "s1 = s\<lparr>w_grid := g, w_distance := fadd (w_distance s) lenEdge\<rparr>"
    show "same_edges (w_mst s) (w_mst s')"
    proof (cases "int (edge_v e) = source dsp")
      case True
      with body r k pe have "s' = s1" by (simp add: s1_def)
      then show ?thesis by (simp add: s1_def same_edges_refl)
    next
      case False
      with body r k pe obtain k' e' where
        k': "edgeTo dsp ! edge_v e = Some k'" "k' < length (w_mst s)" "w_mst s ! k' = Some e'" and
        rec: "f dsp xscale yscale lenEP
                (s1\<lparr>w_e := Some k',
                    w_mst := (if edge_w e' \<noteq> edge_v e
                              then (w_mst s1)[k' := Some \<lparr>edge_v = edge_w e', edge_w = edge_v e'\<rparr>]
                              else w_mst s1)\<rparr>) = Some r"
        by (auto simp: s1_def Let_def split: option.splits if_splits)
      from IH[OF rec] r have
        a: "same_edges (if edge_w e' \<noteq> edge_v e
                        then (w_mst s1)[k' := Some \<lparr>edge_v = edge_w e', edge_w = edge_v e'\<rparr>]
                        else w_mst s1) (w_mst s')"
        by simp
      have b: "same_edges (w_mst s)
                 (if edge_w e' \<noteq> edge_v e
                  then (w_mst s1)[k' := Some \<lparr>edge_v = edge_w e', edge_w = edge_v e'\<rparr>]
                  else w_mst s1)"
        using k' by (simp add: s1_def same_edges_refl same_edges_flip)
      from b a show ?thesis by (rule same_edges_trans)
    qed
  qed
qed

lemma plotSP_inv:
  "plotSP dsp = Some (Inr (err, d')) \<Longrightarrow> same_edges (sp_mst dsp) (sp_mst d')"
  apply (simp add: plotSP_def Let_def and_then_def
              split: if_splits option.splits sum.splits)
    apply (auto simp: same_edges_refl dest!: sp_walk_inv_aux)
  done


section \<open>The rounding of float64\<close>

text \<open>
  \<open>float_exp x\<close> is the exponent of \<open>x\<close>, and \<open>f64 x\<close>, a multiple of \<open>quantum x\<close> by its
  definition, lies within half a quantum of \<open>x\<close>; \<open>round_even\<close> breaks the tie.
\<close>

lemma pow2_pos: "0 < pow2 k"
  by (simp add: pow2_def)

lemma pow2_Suc: "pow2 (k + 1) = 2 * pow2 k"
proof (cases "0 \<le> k")
  case True
  then show ?thesis by (simp add: pow2_def nat_add_distrib)
next
  case False
  then have "nat (- k) = Suc (nat (- (k + 1)))" by simp
  with False show ?thesis by (simp add: pow2_def)
qed

lemma float_exp_bounds:
  assumes "x \<noteq> 0"
  shows "pow2 (float_exp x) \<le> \<bar>x\<bar> \<and> \<bar>x\<bar> < pow2 (float_exp x + 1)"
proof (cases "1 \<le> \<bar>x\<bar>")
  case True
  define n where "n = \<lfloor>\<bar>x\<bar>\<rfloor>"
  from True have n: "0 < n" by (simp add: n_def)
  from bitlen_bounds[OF n] have b: "2 ^ nat (bitlen n - 1) \<le> n" "n < 2 ^ nat (bitlen n)" by simp_all
  from n have bl: "0 < bitlen n" using bitlen_eq_zero_iff[of n] bitlen_nonneg[of n] by simp
  have r1: "(2::real) ^ nat (bitlen n - 1) \<le> real_of_int n"
  proof -
    from b(1) have "real_of_int (2 ^ nat (bitlen n - 1)) \<le> real_of_int n"
      by (rule of_int_le_iff[THEN iffD2])
    then show ?thesis by simp
  qed
  have r2: "real_of_int n + 1 \<le> 2 ^ nat (bitlen n)"
  proof -
    from b(2) have "n + 1 \<le> 2 ^ nat (bitlen n)" by simp
    then have "real_of_int (n + 1) \<le> real_of_int (2 ^ nat (bitlen n))"
      by (rule of_int_le_iff[THEN iffD2])
    then show ?thesis by simp
  qed
  have "real_of_int n \<le> \<bar>x\<bar>" "\<bar>x\<bar> < real_of_int n + 1" by (simp_all add: n_def)
  with r1 r2 have lo: "2 ^ nat (bitlen n - 1) \<le> \<bar>x\<bar>" and hi: "\<bar>x\<bar> < 2 ^ nat (bitlen n)"
    by linarith+
  from True bl lo hi show ?thesis
    by (simp add: float_exp_def pow2_def n_def)
next
  case False
  define y where "y = 1 / \<bar>x\<bar>"
  define m where "m = \<lceil>y\<rceil> - 1"
  from False assms have x: "0 < \<bar>x\<bar>" "\<bar>x\<bar> < 1" by simp_all
  then have y1: "1 < y" by (simp add: y_def)
  then have "1 < \<lceil>y\<rceil>" by linarith
  then have m: "0 < m" by (simp add: m_def)
  from bitlen_bounds[OF m] have b: "2 ^ nat (bitlen m - 1) \<le> m" "m < 2 ^ nat (bitlen m)" by simp_all
  from m have bl: "0 < bitlen m" using bitlen_eq_zero_iff[of m] bitlen_nonneg[of m] by simp
  have my: "real_of_int m < y" "y \<le> real_of_int m + 1" by (simp_all add: m_def) linarith+
  have r1: "(2::real) ^ nat (bitlen m - 1) \<le> real_of_int m"
  proof -
    from b(1) have "real_of_int (2 ^ nat (bitlen m - 1)) \<le> real_of_int m"
      by (rule of_int_le_iff[THEN iffD2])
    then show ?thesis by simp
  qed
  have r2: "real_of_int m + 1 \<le> 2 ^ nat (bitlen m)"
  proof -
    from b(2) have "m + 1 \<le> 2 ^ nat (bitlen m)" by simp
    then have "real_of_int (m + 1) \<le> real_of_int (2 ^ nat (bitlen m))"
      by (rule of_int_le_iff[THEN iffD2])
    then show ?thesis by simp
  qed
  from r1 r2 my have lo: "2 ^ nat (bitlen m - 1) < y" and hi: "y \<le> 2 ^ nat (bitlen m)"
    by linarith+
  have ypos: "0 < y" using y1 by simp
  have xy: "\<bar>x\<bar> = 1 / y" using x by (simp add: y_def)
  have a: "1 / 2 ^ nat (bitlen m) \<le> \<bar>x\<bar>"
    unfolding xy using hi ypos by (simp add: frac_le)
  have c: "\<bar>x\<bar> < 1 / 2 ^ nat (bitlen m - 1)"
    unfolding xy using lo ypos by (simp add: frac_less2)
  have e: "float_exp x = - bitlen m" using False by (simp add: float_exp_def m_def y_def)
  have p1: "pow2 (- bitlen m) = 1 / 2 ^ nat (bitlen m)" using bl by (simp add: pow2_def)
  have p2: "pow2 (- bitlen m + 1) = 1 / 2 ^ nat (bitlen m - 1)"
  proof (cases "bitlen m = 1")
    case True
    then show ?thesis by (simp add: pow2_def)
  next
    case False
    with bl have "\<not> 0 \<le> - bitlen m + 1" "nat (- (- bitlen m + 1)) = nat (bitlen m - 1)" by simp_all
    then show ?thesis by (simp add: pow2_def)
  qed
  from a c show ?thesis unfolding e p1 p2 by simp
qed

lemma round_even_near: "\<bar>real_of_int (round_even r) - r\<bar> \<le> 1 / 2"
  unfolding round_even_def Let_def by (auto simp: abs_if) linarith+

lemma quantum_pos: "0 < quantum x"
  by (simp add: quantum_def pow2_pos)

lemma f64_near: "\<bar>f64 x - x\<bar> \<le> quantum x / 2"
proof (cases "x = 0")
  case True
  then show ?thesis using quantum_pos[of x] by (simp add: f64_def)
next
  case False
  let ?q = "quantum x"
  have "f64 x - x = (real_of_int (round_even (x / ?q)) - x / ?q) * ?q"
    using False quantum_pos[of x] by (simp add: f64_def field_simps)
  then have "\<bar>f64 x - x\<bar> = \<bar>real_of_int (round_even (x / ?q)) - x / ?q\<bar> * ?q"
    using quantum_pos[of x] by (simp add: abs_mult)
  also have "\<dots> \<le> 1 / 2 * ?q"
    using round_even_near[of "x / ?q"] quantum_pos[of x] by (intro mult_right_mono) simp_all
  finally show ?thesis by simp
qed

text \<open>
  The facts by which the operations are evaluated on numerals: the definitions, and the
  recursion of \<open>bitlen\<close>.
\<close>

lemma bitlen_numeral: "bitlen (numeral n) = bitlen (numeral n div 2) + 1"
  by (subst compute_bitlen) simp

lemma bitlen_one: "bitlen 1 = 1"
  by (subst compute_bitlen) simp

lemmas float_eval = round64_def f64_def quantum_def float_exp_def pow2_def round_even_def
  bitlen_numeral bitlen_one go_int_def wrap64_def MaxFloat64_def fsub_def float_of_int_def
  fadd.simps fmul.simps fdiv.simps Let_def

lemmas cell_eval = cell_index_def cell_row_def cell_col_def xscale_of_def yscale_of_def
  columns_def rows_def

text \<open>
  The rounding decides the cell of a point.  In the bounds 0 to 130 the scale
  \<open>299 / 130\<close> is rounded down, and the point \<open>x = 25\<close>, for which the exact value
  \<open>25 * 299 / 130 + 1 / 2\<close> is 58, has column 57.
\<close>

lemma MaxFloat64_pos: "0 < MaxFloat64"
  by (simp add: MaxFloat64_def)

lemma column_of_25_in_130:
  "cell_col \<lparr>xmin = 0, xmax = 130, ymin = 0, ymax = 144\<rparr>
     (xscale_of \<lparr>xmin = 0, xmax = 130, ymin = 0, ymax = 144\<rparr>) (Finite 25) = Some 57"
  by (simp add: cell_eval float_eval)

text \<open>
  Bounds of width 0 or of height 0: the scale is an infinity, the product with it is an
  infinity or NaN, and no point has a cell.
\<close>

lemma round64_small:
  "round64 0 = Finite 0" "round64 1 = Finite 1" "round64 (5 / 4) = Finite (5 / 4)"
  by (simp_all add: float_eval)

lemma scale_of_width_0:
  "fdiv (Finite c) (fsub (Finite a) (Finite a)) = (if c = 0 then NaN else Infinite (c < 0))"
  by (simp add: fsub_def round64_small)

lemma go_int_times_infinity:
  "go_int (fadd (fmul a (Infinite s)) (Finite h)) = None"
  by (cases a) (auto simp: go_int_def)

lemma no_cell_for_width_0: "xmax ep = xmin ep \<Longrightarrow> cell_index ep (xscale_of ep) yscale x y = None"
  by (simp add: cell_index_def cell_col_def xscale_of_def scale_of_width_0 columns_def rows_def
      go_int_times_infinity split: option.splits)

lemma no_cell_for_height_0: "ymax ep = ymin ep \<Longrightarrow> cell_index ep xscale (yscale_of ep) x y = None"
  by (simp add: cell_index_def cell_row_def yscale_of_def scale_of_width_0 rows_def
      go_int_times_infinity)

text \<open>
  The length of a horizontal edge is the distance of its end points, and the square
  roots that the runs below need.
\<close>

lemma fsqrt_1: "fsqrt (Finite 1) = Finite 1"
  by (simp add: round64_small)

lemma sqrt_25_16: "sqrt (25 / 16) = 5 / 4"
  by (rule real_sqrt_unique) (simp_all add: power2_eq_square)

lemma Hypot_axis: "Hypot (Finite a) (Finite 0) = round64 \<bar>a\<bar>"
proof (cases "a = 0")
  case True
  then show ?thesis by (simp add: Hypot_def round64_small)
next
  case False
  then have "fdiv (Finite 0) (Finite \<bar>a\<bar>) = Finite 0" by (simp add: round64_small)
  with False show ?thesis
    by (simp add: Hypot_def Let_def round64_small fsqrt_1)
qed

lemma cmplx_Abs_horizontal:
  assumes "round64 (a - b) = Finite d"
  shows "cmplx_Abs (complex_sub (Complex a c) (Complex b c)) = round64 \<bar>d\<bar>"
  using assms by (simp add: cmplx_Abs_def complex_sub_def fsub_def round64_small Hypot_axis)

lemma round64_diag:
  "round64 897 = Finite 897" "round64 1196 = Finite 1196" "round64 (3 / 4) = Finite (3 / 4)"
  "round64 (9 / 16) = Finite (9 / 16)" "round64 (25 / 16) = Finite (25 / 16)"
  "round64 1495 = Finite 1495"
  by (simp_all add: float_eval)

lemma lenEP_bounds0: "lenEP_of bounds0 = Finite 1495"
  by (simp add: lenEP_of_def bounds0_def cmplx_Abs_def complex_sub_def fsub_def Hypot_def Let_def
      round64_diag round64_small sqrt_25_16 del: real_sqrt_divide)

lemma lenEP_bounds4: "lenEP_of bounds4 = Finite 1495"
  by (simp add: lenEP_of_def bounds4_def cmplx_Abs_def complex_sub_def fsub_def Hypot_def Let_def
      round64_diag round64_small sqrt_25_16 del: real_sqrt_divide)

text \<open>
  From here on the operations are evaluated on closed terms only.
\<close>

declare fadd.simps [simp del] fmul.simps [simp del] fdiv.simps [simp del] fsqrt.simps [simp del]

section \<open>Runs on the concrete inputs\<close>

lemma and_then_Inr_left: "and_then (Inr x) f = f x"
  by (simp add: and_then_def)

lemma set_cell_in_range:
  "0 \<le> i \<Longrightarrow> i < int (length g) \<Longrightarrow> set_cell g i l = Inr (g[nat i := l])"
  by (simp add: set_cell_def)

lemma put_cell_Some: "put_cell g (Some i) l = set_cell g i l"
  by (simp add: put_cell_def)

lemma wrap64_small: "- (2 ^ 63) \<le> i \<Longrightarrow> i < 2 ^ 63 \<Longrightarrow> wrap64 i = i"
  by (simp add: wrap64_def)

lemma grid0_length: "length (replicate (nat (rows * columns)) ([]::string)) = 90000"
  by (simp add: rows_def columns_def)

lemma upt_5: "[0 ..< 5] = [0, 1, 2, 3, 4]"
  by (simp add: upt_rec)

text \<open>
  The cells of the points on the line \<open>y = 4\<close> in the bounds \<open>bounds0\<close>, the numbers of
  sample points of the edges and their steps.
\<close>

lemma round64_lengths:
  "round64 (- 12) = Finite (- 12)" "round64 (- 4) = Finite (- 4)" "round64 4 = Finite 4"
  "round64 10 = Finite 10" "round64 12 = Finite 12"
  by (simp_all add: float_eval)

lemma cell_index_bounds0:
  "cell_index bounds0 (xscale_of bounds0) (yscale_of bounds0) (Finite 5) (Finite 4) = Some 89402"
  "cell_index bounds0 (xscale_of bounds0) (yscale_of bounds0) (Finite 6) (Finite 4) = Some 89402"
  "cell_index bounds0 (xscale_of bounds0) (yscale_of bounds0) (Finite 11) (Finite 4) = Some 89404"
  "cell_index bounds0 (xscale_of bounds0) (yscale_of bounds0) (Finite 12) (Finite 4) = Some 89404"
  "cell_index bounds0 (xscale_of bounds0) (yscale_of bounds0) (Finite 13) (Finite 4) = Some 89404"
  "cell_index bounds0 (xscale_of bounds0) (yscale_of bounds0) (Finite 14) (Finite 4) = Some 89405"
  "cell_index bounds0 (xscale_of bounds0) (yscale_of bounds0) (Finite 16) (Finite 4) = Some 89405"
  "cell_index bounds0 (xscale_of bounds0) (yscale_of bounds0) (Finite 17) (Finite 4) = Some 89406"
  "cell_index bounds0 (xscale_of bounds0) (yscale_of bounds0) (Finite 21) (Finite 4) = Some 89407"
  by (simp_all add: cell_eval bounds0_def float_eval)

lemma ncells_1495:
  "go_int (fdiv (fmul (Finite 300) (Finite 1)) (Finite 1495)) = Some 0"
  "go_int (fdiv (fmul (Finite 300) (Finite 4)) (Finite 1495)) = Some 0"
  "go_int (fdiv (fmul (Finite 300) (Finite 10)) (Finite 1495)) = Some 2"
  "go_int (fdiv (fmul (Finite 300) (Finite 12)) (Finite 1495)) = Some 2"
  by (simp_all add: float_eval)

lemma steps_y4:
  "fdiv (fsub (Finite 4) (Finite 4)) (float_of_int 2) = Finite 0"
  "fadd (Finite 4) (Finite 0) = Finite 4"
  by (simp_all add: float_eval)

subsection \<open>The four points of \<open>row4\<close>\<close>

lemma findDistances_row4: "findDistances (row4\<lparr>graph := [], mst := []\<rparr>) = row4\<lparr>mst := []\<rparr>"
  by (simp add: findDistances_def row4_def upt_4 cmod_horizontal)

lemma findMST_run_row4:
  "findMST_run (row4\<lparr>mst := []\<rparr>) =
     Some (Inr \<lparr>m_mst = [None, Some \<lparr>edge_v = 2, edge_w = 1\<rparr>, Some \<lparr>edge_v = 3, edge_w = 2\<rparr>,
                  Some \<lparr>edge_v = 0, edge_w = 3\<rparr>],
                m_marked = [True, True, True, True],
                m_distTo = [MaxFloat64, 4, 10, 1], m_pq = [], m_pops = 5\<rparr>)"
  unfolding row4_def bounds0_def by code_simp

lemma findMST_row4: "findMST (findDistances (row4\<lparr>graph := [], mst := []\<rparr>)) = Some (Inr row4)"
  by (simp add: findDistances_row4 findMST_def findMST_run_row4) (simp add: row4_def)

lemma length_row4:
  "cmplx_Abs (complex_sub (Complex 12 4) (Complex 16 4)) = Finite 4"
  "cmplx_Abs (complex_sub (Complex 16 4) (Complex 6 4)) = Finite 10"
  "cmplx_Abs (complex_sub (Complex 6 4) (Complex 5 4)) = Finite 1"
  using cmplx_Abs_horizontal[of 12 16 "- 4" 4] cmplx_Abs_horizontal[of 16 6 10 4]
    cmplx_Abs_horizontal[of 6 5 1 4]
  by (simp_all add: round64_lengths round64_small)

lemma steps_row4:
  "fdiv (fsub (Finite 16) (Finite 6)) (float_of_int 2) = Finite 5"
  "fadd (Finite 6) (Finite 5) = Finite 11"
  by (simp_all add: float_eval)

lemma cells_row4:
  "mst_vertex_cell row4 1 = Some 89404"
  by (simp add: mst_vertex_cell_def vertex_cell_def row4_def cell_index_bounds0)

lemma plot_edge_row4_slot1:
  assumes "length g = 90000"
  shows "plot_edge (location row4) bounds0 (xscale_of bounds0) (yscale_of bounds0) (Finite 1495)
           ''edge'' \<lparr>edge_v = 2, edge_w = 1\<rparr> g =
     Inr (g[89405 := ''vertex'', 89404 := ''vertex''], Finite 4)"
  using assms
  by (simp add: plot_edge_def Let_def row4_def columns_def rows_def length_row4 ncells_1495
      cell_index_bounds0 put_cell_Some set_cell_in_range and_then_Inr_left)

lemma plot_edge_row4_slot2:
  assumes "length g = 90000"
  shows "plot_edge (location row4) bounds0 (xscale_of bounds0) (yscale_of bounds0) (Finite 1495)
           ''edge'' \<lparr>edge_v = 3, edge_w = 2\<rparr> g =
     Inr (g[89402 := ''edge'', 89404 := ''edge'', 89402 := ''vertex'', 89405 := ''vertex''],
          Finite 10)"
proof -
  have d: "draw_edge 2 bounds0 (xscale_of bounds0) (yscale_of bounds0) ''edge'' (Finite 5) (Finite 0)
      (Finite 6) (Finite 4) g = Inr (g[89402 := ''edge'', 89404 := ''edge''])"
    using assms
    by (simp add: numeral_2_eq_2 cell_index_bounds0 steps_row4 steps_y4 put_cell_Some
        set_cell_in_range and_then_Inr_left)
  show ?thesis
    using assms
    by (simp add: plot_edge_def Let_def row4_def columns_def rows_def length_row4 ncells_1495
        steps_row4 steps_y4 d cell_index_bounds0 put_cell_Some set_cell_in_range and_then_Inr_left)
qed

lemma plot_edge_row4_slot3:
  assumes "length g = 90000"
  shows "plot_edge (location row4) bounds0 (xscale_of bounds0) (yscale_of bounds0) (Finite 1495)
           ''edge'' \<lparr>edge_v = 0, edge_w = 3\<rparr> g =
     Inr (g[89402 := ''vertex'', 89402 := ''vertex''], Finite 1)"
  using assms
  by (simp add: plot_edge_def Let_def row4_def columns_def rows_def length_row4 ncells_1495
      cell_index_bounds0 put_cell_Some set_cell_in_range and_then_Inr_left)

lemma plotMST_edges_row4:
  assumes "length g0 = 90000"
  shows "\<exists>g d. plotMST_edges (location row4) bounds0 (xscale_of bounds0) (yscale_of bounds0)
            (Finite 1495) (drop 1 (mst row4)) (g0, Finite 0) = Inr (g, d) \<and>
          length g = 90000 \<and> g ! 89404 = ''edge''"
proof -
  define g1 where "g1 = g0[89405 := ''vertex'', 89404 := ''vertex'']"
  define g2 where
    "g2 = g1[89402 := ''edge'', 89404 := ''edge'', 89402 := ''vertex'', 89405 := ''vertex'']"
  define g3 where "g3 = g2[89402 := ''vertex'', 89402 := ''vertex'']"
  have l: "length g1 = 90000" "length g2 = 90000" "length g3 = 90000"
    using assms by (simp_all add: g1_def g2_def g3_def)
  have m: "drop 1 (mst row4) =
      [Some \<lparr>edge_v = 2, edge_w = 1\<rparr>, Some \<lparr>edge_v = 3, edge_w = 2\<rparr>, Some \<lparr>edge_v = 0, edge_w = 3\<rparr>]"
    by (simp add: row4_def)
  have run: "plotMST_edges (location row4) bounds0 (xscale_of bounds0) (yscale_of bounds0)
      (Finite 1495) (drop 1 (mst row4)) (g0, Finite 0)
      = Inr (g3, fadd (fadd (fadd (Finite 0) (Finite 4)) (Finite 10)) (Finite 1))"
    unfolding m
    by (simp only: plotMST_edges.simps option.case fst_conv snd_conv prod.case and_then_Inr_left
        plot_edge_row4_slot1[OF assms, folded g1_def]
        plot_edge_row4_slot2[OF l(1), folded g2_def]
        plot_edge_row4_slot3[OF l(2), folded g3_def])
  have "g3 ! 89404 = ''edge''"
    using assms by (simp add: g1_def g2_def g3_def)
  with run l(3) show ?thesis by blast
qed

lemma plotMST_loop_row4:
  "\<exists>g d. plotMST_loop row4 = Inr (g, d) \<and> length g = 90000 \<and> g ! 89404 = ''edge''"
proof -
  have e: "endpoints row4 = bounds0" and n: "(length (mst row4) < 1) = False"
    by (simp_all add: row4_def)
  show ?thesis
    unfolding plotMST_loop_def Let_def e n if_False lenEP_bounds0
    by (rule plotMST_edges_row4[OF grid0_length])
qed

subsection \<open>The five points of \<open>row5\<close>\<close>

lemma findDistances_row5: "findDistances (row5\<lparr>graph := [], mst := []\<rparr>) = row5\<lparr>mst := []\<rparr>"
  by (simp add: findDistances_def row5_def upt_5 cmod_horizontal)

lemma findMST_run_row5:
  "findMST_run (row5\<lparr>mst := []\<rparr>) =
     Some (Inr \<lparr>m_mst = [None, Some \<lparr>edge_v = 3, edge_w = 1\<rparr>, Some \<lparr>edge_v = 4, edge_w = 2\<rparr>,
                  Some \<lparr>edge_v = 4, edge_w = 3\<rparr>, Some \<lparr>edge_v = 0, edge_w = 4\<rparr>],
                m_marked = [True, True, True, True, True],
                m_distTo = [MaxFloat64, 1, 12, 4, 4], m_pq = [], m_pops = 6\<rparr>)"
  unfolding row5_def bounds0_def by code_simp

lemma findMST_row5: "findMST (findDistances (row5\<lparr>graph := [], mst := []\<rparr>)) = Some (Inr row5)"
  by (simp add: findDistances_row5 findMST_def findMST_run_row5) (simp add: row5_def)

lemma length_row5:
  "cmplx_Abs (complex_sub (Complex 14 4) (Complex 13 4)) = Finite 1"
  "cmplx_Abs (complex_sub (Complex 5 4) (Complex 17 4)) = Finite 12"
  "cmplx_Abs (complex_sub (Complex 13 4) (Complex 17 4)) = Finite 4"
  "cmplx_Abs (complex_sub (Complex 17 4) (Complex 21 4)) = Finite 4"
  using cmplx_Abs_horizontal[of 14 13 1 4] cmplx_Abs_horizontal[of 5 17 "- 12" 4]
    cmplx_Abs_horizontal[of 13 17 "- 4" 4] cmplx_Abs_horizontal[of 17 21 "- 4" 4]
  by (simp_all add: round64_lengths round64_small)

lemma steps_row5:
  "fdiv (fsub (Finite 5) (Finite 17)) (float_of_int 2) = Finite (- 6)"
  "fadd (Finite 17) (Finite (- 6)) = Finite 11"
  by (simp_all add: float_eval)

lemma cells_row5:
  "mst_vertex_cell row5 3 = Some 89404"
  "mst_vertex_cell row5 4 = Some 89406"
  "mst_vertex_cell row5 2 = Some 89402"
  "mst_edge_cells row5 \<lparr>edge_v = 4, edge_w = 2\<rparr> = [Some 89406, Some 89404]"
  by (simp_all add: mst_vertex_cell_def mst_edge_cells_def vertex_cell_def edge_cells_def Let_def
      row5_def columns_def rows_def lenEP_bounds0 length_row5 ncells_1495 steps_row5 steps_y4
      numeral_2_eq_2 cell_index_bounds0)

lemma plot_edge_row5_slot1:
  assumes "length g = 90000"
  shows "plot_edge (location row5) bounds0 (xscale_of bounds0) (yscale_of bounds0) (Finite 1495)
           ''edge'' \<lparr>edge_v = 3, edge_w = 1\<rparr> g =
     Inr (g[89404 := ''vertex'', 89405 := ''vertex''], Finite 1)"
  using assms
  by (simp add: plot_edge_def Let_def row5_def columns_def rows_def length_row5 ncells_1495
      cell_index_bounds0 put_cell_Some set_cell_in_range and_then_Inr_left)

lemma plot_edge_row5_slot2:
  assumes "length g = 90000"
  shows "plot_edge (location row5) bounds0 (xscale_of bounds0) (yscale_of bounds0) (Finite 1495)
           ''edge'' \<lparr>edge_v = 4, edge_w = 2\<rparr> g =
     Inr (g[89406 := ''edge'', 89404 := ''edge'', 89406 := ''vertex'', 89402 := ''vertex''],
          Finite 12)"
proof -
  have d: "draw_edge 2 bounds0 (xscale_of bounds0) (yscale_of bounds0) ''edge'' (Finite (- 6))
      (Finite 0) (Finite 17) (Finite 4) g = Inr (g[89406 := ''edge'', 89404 := ''edge''])"
    using assms
    by (simp add: numeral_2_eq_2 cell_index_bounds0 steps_row5 steps_y4 put_cell_Some
        set_cell_in_range and_then_Inr_left)
  show ?thesis
    using assms
    by (simp add: plot_edge_def Let_def row5_def columns_def rows_def length_row5 ncells_1495
        steps_row5 steps_y4 d cell_index_bounds0 put_cell_Some set_cell_in_range and_then_Inr_left)
qed

lemma plot_edge_row5_slot3:
  assumes "length g = 90000"
  shows "plot_edge (location row5) bounds0 (xscale_of bounds0) (yscale_of bounds0) (Finite 1495)
           ''edge'' \<lparr>edge_v = 4, edge_w = 3\<rparr> g =
     Inr (g[89406 := ''vertex'', 89404 := ''vertex''], Finite 4)"
  using assms
  by (simp add: plot_edge_def Let_def row5_def columns_def rows_def length_row5 ncells_1495
      cell_index_bounds0 put_cell_Some set_cell_in_range and_then_Inr_left)

lemma plot_edge_row5_slot4:
  assumes "length g = 90000"
  shows "plot_edge (location row5) bounds0 (xscale_of bounds0) (yscale_of bounds0) (Finite 1495)
           ''edge'' \<lparr>edge_v = 0, edge_w = 4\<rparr> g =
     Inr (g[89407 := ''vertex'', 89406 := ''vertex''], Finite 4)"
  using assms
  by (simp add: plot_edge_def Let_def row5_def columns_def rows_def length_row5 ncells_1495
      cell_index_bounds0 put_cell_Some set_cell_in_range and_then_Inr_left)

lemma plotMST_loop_row5: "\<exists>gd. plotMST_loop row5 = Inr gd"
proof -
  let ?g0 = "replicate (nat (rows * columns)) ([]::string)"
  define g1 where "g1 = ?g0[89404 := ''vertex'', 89405 := ''vertex'']"
  define g2 where
    "g2 = g1[89406 := ''edge'', 89404 := ''edge'', 89406 := ''vertex'', 89402 := ''vertex'']"
  define g3 where "g3 = g2[89406 := ''vertex'', 89404 := ''vertex'']"
  define g4 where "g4 = g3[89407 := ''vertex'', 89406 := ''vertex'']"
  have l: "length g1 = 90000" "length g2 = 90000" "length g3 = 90000"
    using grid0_length by (simp_all add: g1_def g2_def g3_def)
  have e: "endpoints row5 = bounds0" and n: "(length (mst row5) < 1) = False"
    and m: "drop 1 (mst row5) =
      [Some \<lparr>edge_v = 3, edge_w = 1\<rparr>, Some \<lparr>edge_v = 4, edge_w = 2\<rparr>, Some \<lparr>edge_v = 4, edge_w = 3\<rparr>,
       Some \<lparr>edge_v = 0, edge_w = 4\<rparr>]"
    by (simp_all add: row5_def)
  have "plotMST_loop row5 =
      Inr (g4, fadd (fadd (fadd (fadd (Finite 0) (Finite 1)) (Finite 12)) (Finite 4)) (Finite 4))"
    unfolding plotMST_loop_def Let_def e n if_False lenEP_bounds0 m
    by (simp only: plotMST_edges.simps option.case fst_conv snd_conv prod.case and_then_Inr_left
        plot_edge_row5_slot1[OF grid0_length, folded g1_def]
        plot_edge_row5_slot2[OF l(1), folded g2_def]
        plot_edge_row5_slot3[OF l(2), folded g3_def]
        plot_edge_row5_slot4[OF l(3), folded g4_def])
  then show ?thesis by blast
qed

subsection \<open>The two points of \<open>top2\<close>\<close>

lemma findMST_top2: "findMST (findDistances (top2\<lparr>graph := [], mst := []\<rparr>)) = Some (Inr top2)"
proof -
  have a: "findDistances (top2\<lparr>graph := [], mst := []\<rparr>) = top2\<lparr>mst := []\<rparr>"
    by (simp add: findDistances_def top2_def upt_rec cmod_horizontal)
  have b: "findMST_run (top2\<lparr>mst := []\<rparr>) =
     Some (Inr \<lparr>m_mst = [None, Some \<lparr>edge_v = 0, edge_w = 1\<rparr>], m_marked = [True, True],
                m_distTo = [MaxFloat64, 1], m_pq = [], m_pops = 2\<rparr>)"
    unfolding top2_def bounds0_def by code_simp
  show ?thesis by (simp add: a findMST_def b) (simp add: top2_def)
qed

lemma cell_top2:
  "cell_row bounds0 (yscale_of bounds0) (Finite 1196) = Some 0"
  "cell_col bounds0 (xscale_of bounds0) (Finite 5) = Some 2"
  "cell_index bounds0 (xscale_of bounds0) (yscale_of bounds0) (Finite 5) (Finite 1196) = Some 2"
  "cell_index bounds0 (xscale_of bounds0) (yscale_of bounds0) (Finite 6) (Finite 1196) = Some 2"
  by (simp_all add: cell_eval bounds0_def float_eval)

lemma length_top2: "cmplx_Abs (complex_sub (Complex 6 1196) (Complex 5 1196)) = Finite 1"
  using cmplx_Abs_horizontal[of 6 5 1 1196] by (simp add: round64_small)

lemma plotMST_loop_top2:
  "\<exists>g d. plotMST_loop top2 = Inr (g, d) \<and> length g = 90000"
proof -
  have e: "endpoints top2 = bounds0" and n: "(length (mst top2) < 1) = False"
    and m: "drop 1 (mst top2) = [Some \<lparr>edge_v = 0, edge_w = 1\<rparr>]"
    by (simp_all add: top2_def)
  have pe: "plot_edge (location top2) bounds0 (xscale_of bounds0) (yscale_of bounds0) (Finite 1495)
      ''edge'' \<lparr>edge_v = 0, edge_w = 1\<rparr> g = Inr (g[2 := ''vertex'', 2 := ''vertex''], Finite 1)"
    if "length g = 90000" for g
    using that
    by (simp add: plot_edge_def Let_def top2_def columns_def rows_def length_top2 ncells_1495
        cell_top2 put_cell_Some set_cell_in_range and_then_Inr_left)
  have "plotMST_edges (location top2) bounds0 (xscale_of bounds0) (yscale_of bounds0) (Finite 1495)
      (drop 1 (mst top2)) (replicate (nat (rows * columns)) [], Finite 0) =
      Inr ((replicate (nat (rows * columns)) [])[2 := ''vertex'', 2 := ''vertex''],
           fadd (Finite 0) (Finite 1))"
    unfolding m
    by (simp only: plotMST_edges.simps option.case fst_conv snd_conv prod.case and_then_Inr_left
        pe[OF grid0_length])
  then show ?thesis
    unfolding plotMST_loop_def Let_def e n if_False lenEP_bounds0
    using grid0_length by simp
qed

lemma mark_plus_row0:
  "length g = 90000 \<Longrightarrow> mark_plus g 0 2 l = Inl IndexOutOfRange"
  by (simp add: mark_plus_def and_then_def set_cell_def columns_def rows_def wrap64_small)

lemma plotMST_top2: "plotMST top2 = Inl IndexOutOfRange"
proof -
  from plotMST_loop_top2 obtain g d where
    g: "plotMST_loop top2 = Inr (g, d)" and len: "length g = 90000"
    by blast
  have e: "endpoints top2 = bounds0" and loc: "location top2 ! 0 = Complex 5 1196"
    and n: "length (location top2) = 2"
    by (simp_all add: top2_def)
  show ?thesis
    unfolding plotMST_def g
    by (simp add: and_then_def Let_def e loc n mark_point_def cell_top2 mark_plus_row0[OF len])
qed

subsection \<open>The four points of \<open>line4\<close>\<close>

lemma findDistances_line4: "findDistances line4 = line4\<lparr>graph := graph4\<rparr>"
  by (simp add: findDistances_def line4_def graph4_def upt_4 cmod_horizontal)

lemma findMST_run_line4:
  "findMST_run (line4\<lparr>graph := graph4\<rparr>) =
     Some (Inr \<lparr>m_mst = tree4, m_marked = [True, True, True, True],
                m_distTo = [MaxFloat64, 1, 1, 1], m_pq = [], m_pops = 4\<rparr>)"
  unfolding line4_def graph4_def tree4_def bounds4_def by code_simp

lemma findMST_line4:
  "findMST (findDistances line4) = Some (Inr (line4\<lparr>graph := graph4, mst := tree4\<rparr>))"
  by (simp add: findDistances_line4 findMST_def findMST_run_line4)

lemma findSP_query4_2_3:
  "findSP (query4 pl) 2 3 =
     Some (Inr (None, (query4 pl)\<lparr>source := 2, target := 3,
        edgeTo := [Some 2, Some 1, None, None], distTo := [1, 1, 0, MaxFloat64],
        adj := [[2, 3], [1], [1, 2], [3]],
        sp_mst := [None, Some \<lparr>edge_v = 1, edge_w = 2\<rparr>, Some \<lparr>edge_v = 2, edge_w = 0\<rparr>,
                   Some \<lparr>edge_v = 0, edge_w = 3\<rparr>]\<rparr>))"
  unfolding query4_def graph4_def tree4_def bounds4_def by code_simp

lemma findSP_query4_3_2:
  "findSP (query4 pl) 3 2 =
     Some (Inr (None, (query4 pl)\<lparr>source := 3, target := 2,
        edgeTo := [Some 3, None, Some 2, None], distTo := [1, MaxFloat64, 2, 0],
        adj := [[2, 3], [1], [1, 2], [3]]\<rparr>))"
  unfolding query4_def graph4_def tree4_def bounds4_def by code_simp

lemma two_ne_MaxFloat64: "2 \<noteq> MaxFloat64"
  by (simp add: MaxFloat64_def)

lemma cell_line4:
  "cell_index bounds4 (xscale_of bounds4) (yscale_of bounds4) (Finite (- 1)) (Finite 0) = Some 89103"
  "cell_index bounds4 (xscale_of bounds4) (yscale_of bounds4) (Finite 0) (Finite 0) = Some 89103"
  "cell_index bounds4 (xscale_of bounds4) (yscale_of bounds4) (Finite 1) (Finite 0) = Some 89104"
  "cell_row bounds4 (yscale_of bounds4) (Finite 0) = Some 297"
  "cell_col bounds4 (xscale_of bounds4) (Finite (- 1)) = Some 3"
  "cell_col bounds4 (xscale_of bounds4) (Finite 1) = Some 4"
  by (simp_all add: cell_eval bounds4_def float_eval)

lemma length_line4:
  "cmplx_Abs (complex_sub (Complex 1 0) (Complex 0 0)) = Finite 1"
  "cmplx_Abs (complex_sub (Complex 0 0) (Complex (- 1) 0)) = Finite 1"
  using cmplx_Abs_horizontal[of 1 0 1 0] cmplx_Abs_horizontal[of 0 "- 1" 1 0]
  by (simp_all add: round64_small)

lemma sum_line4:
  "fadd (fadd (Finite 0) (Finite 1)) (Finite 1) = Finite 2"
  by (simp add: float_eval)

lemma plot_edge_line4:
  assumes "length g = 90000"
  shows "plot_edge [Complex 0 0, Complex 2 0, Complex 1 0, Complex (- 1) 0] bounds4
           (xscale_of bounds4) (yscale_of bounds4) (Finite 1495) ''edgeSP''
           \<lparr>edge_v = 0, edge_w = 2\<rparr> g =
         Inr (g[89103 := ''vertex'', 89104 := ''vertex''], Finite 1)"
    and "plot_edge [Complex 0 0, Complex 2 0, Complex 1 0, Complex (- 1) 0] bounds4
           (xscale_of bounds4) (yscale_of bounds4) (Finite 1495) ''edgeSP''
           \<lparr>edge_v = 3, edge_w = 0\<rparr> g =
         Inr (g[89103 := ''vertex'', 89103 := ''vertex''], Finite 1)"
  using assms
  by (simp_all add: plot_edge_def Let_def columns_def rows_def length_line4 ncells_1495
      cell_line4 put_cell_Some set_cell_in_range and_then_Inr_left)

lemma mark_point_line4:
  assumes "length g = 90000"
  shows "mark_point g bounds4 (xscale_of bounds4) (yscale_of bounds4) 1 0 l =
           Inr (g[89104 := l, 89404 := l, 88804 := l, 89105 := l, 89103 := l])"
    and "mark_point g bounds4 (xscale_of bounds4) (yscale_of bounds4) (- 1) 0 l =
           Inr (g[89103 := l, 89403 := l, 88803 := l, 89104 := l, 89102 := l])"
  using assms
  by (simp_all add: mark_point_def cell_line4 mark_plus_def columns_def rows_def wrap64_small
      set_cell_in_range and_then_Inr_left)

lemma plotSP_query4_3_2:
  assumes len: "length (Grid pl) = 90000"
  shows "\<exists>d'. plotSP ((query4 pl)\<lparr>source := 3, target := 2,
        edgeTo := [Some 3, None, Some 2, None], distTo := [1, MaxFloat64, 2, 0],
        adj := [[2, 3], [1], [1, 2], [3]]\<rparr>) = Some (Inr (None, d')) \<and>
      DistanceSP (sp_plot d') = Some (Finite 2) \<and> Source (sp_plot d') = Some 3 \<and>
      Target (sp_plot d') = Some 2 \<and>
      sp_mst d' = [None, Some \<lparr>edge_v = 2, edge_w = 1\<rparr>, Some \<lparr>edge_v = 0, edge_w = 2\<rparr>,
                   Some \<lparr>edge_v = 3, edge_w = 0\<rparr>]"
  using len
  by (simp add: plotSP_def Let_def query4_def tree4_def two_ne_MaxFloat64 lenEP_bounds4
      sp_walk.simps plot_edge_line4 mark_point_line4 sum_line4 and_then_Inr_left)

lemma empty_plot_fields:
  "length (Grid empty_plot) = 90000" "DistanceSP empty_plot = None"
  by (simp_all add: empty_plot_def rows_def columns_def)


section \<open>The labels that the loop of plotMST leaves\<close>

text \<open>
  The loop that draws the sample points of an edge writes the label to their cells and
  to no other cell; an edge leaves in every cell the label that \<open>edge_label\<close> says, and
  the loop over the edges the label that \<open>label_after\<close> says.  The cells of the two
  endpoints of every edge are cells of the grid.
\<close>

lemma set_cell_Inr:
  "set_cell g i l = Inr g' \<longleftrightarrow> 0 \<le> i \<and> i < int (length g) \<and> g' = g[nat i := l]"
  by (auto simp: set_cell_def)

lemma put_cell_Inr:
  "put_cell g c l = Inr g' \<longleftrightarrow>
     (\<exists>i. c = Some i \<and> 0 \<le> i \<and> i < int (length g) \<and> g' = g[nat i := l])"
  by (cases c) (auto simp: put_cell_def set_cell_Inr)

lemma nth_update_cell:
  "0 \<le> i \<Longrightarrow> i < int (length g) \<Longrightarrow> 0 \<le> c \<Longrightarrow>
   g[nat i := l] ! nat c = (if c = i then l else g ! nat c)"
  by (auto simp: nth_list_update)

lemma draw_edge_cells:
  "draw_edge n ep xscale yscale l stepX stepY x y g = Inr g' \<Longrightarrow>
   length g' = length g \<and>
   (\<forall>c. 0 \<le> c \<longrightarrow>
      g' ! nat c = (if Some c \<in> set (sample_cells n ep xscale yscale stepX stepY x y) then l
                    else g ! nat c))"
proof (induction n arbitrary: x y g)
  case 0
  then show ?case by simp
next
  case (Suc n)
  from Suc.prems obtain g1 where
    w: "put_cell g (cell_index ep xscale yscale x y) l = Inr g1" and
    r: "draw_edge n ep xscale yscale l stepX stepY (fadd x stepX) (fadd y stepY) g1 = Inr g'"
    by (auto simp: and_then_Inr)
  from w obtain i where i: "cell_index ep xscale yscale x y = Some i" "0 \<le> i"
    "i < int (length g)" "g1 = g[nat i := l]"
    by (auto simp: put_cell_Inr)
  from Suc.IH[OF r] i show ?case
    by (auto simp: nth_update_cell)
qed

lemma plot_edge_cells:
  assumes "plot_edge loc ep xscale yscale lenEP l e g = Inr (g', len)"
  shows "length g' = length g"
    and "\<exists>cv. vertex_cell loc ep xscale yscale (edge_v e) = Some cv \<and> 0 \<le> cv \<and>
           cv < int (length g)"
    and "\<exists>cw. vertex_cell loc ep xscale yscale (edge_w e) = Some cw \<and> 0 \<le> cw \<and>
           cw < int (length g)"
    and "\<And>c. 0 \<le> c \<Longrightarrow>
           g' ! nat c =
             (if Some c = vertex_cell loc ep xscale yscale (edge_v e) \<or>
                 Some c = vertex_cell loc ep xscale yscale (edge_w e) then ''vertex''
              else if Some c \<in> set (edge_cells loc ep xscale yscale lenEP e) then l
              else g ! nat c)"
proof -
  define lenEdge where "lenEdge = cmplx_Abs (complex_sub (loc ! edge_w e) (loc ! edge_v e))"
  from assms obtain ncells where
    n: "go_int (fdiv (fmul (Finite (of_int columns)) lenEdge) lenEP) = Some ncells"
    by (auto simp: plot_edge_def Let_def lenEdge_def split: if_splits option.splits)
  define stepX where
    "stepX = fdiv (fsub (Finite (Re (loc ! edge_w e))) (Finite (Re (loc ! edge_v e))))
               (float_of_int ncells)"
  define stepY where
    "stepY = fdiv (fsub (Finite (Im (loc ! edge_w e))) (Finite (Im (loc ! edge_v e))))
               (float_of_int ncells)"
  from assms n obtain g1 g2 where
    d: "draw_edge (nat ncells) ep xscale yscale l stepX stepY
          (Finite (Re (loc ! edge_v e))) (Finite (Im (loc ! edge_v e))) g = Inr g1" and
    v: "put_cell g1 (vertex_cell loc ep xscale yscale (edge_v e)) ''vertex'' = Inr g2" and
    w: "put_cell g2 (vertex_cell loc ep xscale yscale (edge_w e)) ''vertex'' = Inr g'"
    by (auto simp: plot_edge_def Let_def and_then_Inr lenEdge_def stepX_def stepY_def
          vertex_cell_def split: if_splits)
  have cells: "edge_cells loc ep xscale yscale lenEP e =
      sample_cells (nat ncells) ep xscale yscale stepX stepY
        (Finite (Re (loc ! edge_v e))) (Finite (Im (loc ! edge_v e)))"
    using n by (simp add: edge_cells_def Let_def lenEdge_def stepX_def stepY_def)
  note dc = draw_edge_cells[OF d]
  from v obtain cv where cv: "vertex_cell loc ep xscale yscale (edge_v e) = Some cv" "0 \<le> cv"
    "cv < int (length g1)" "g2 = g1[nat cv := ''vertex'']"
    by (auto simp: put_cell_Inr)
  from w obtain cw where cw: "vertex_cell loc ep xscale yscale (edge_w e) = Some cw" "0 \<le> cw"
    "cw < int (length g2)" "g' = g2[nat cw := ''vertex'']"
    by (auto simp: put_cell_Inr)
  show "length g' = length g" using dc cv cw by simp
  show "\<exists>cv. vertex_cell loc ep xscale yscale (edge_v e) = Some cv \<and> 0 \<le> cv \<and>
           cv < int (length g)"
    using cv dc by simp
  show "\<exists>cw. vertex_cell loc ep xscale yscale (edge_w e) = Some cw \<and> 0 \<le> cw \<and>
           cw < int (length g)"
    using cw cv dc by simp
  show "g' ! nat c =
             (if Some c = vertex_cell loc ep xscale yscale (edge_v e) \<or>
                 Some c = vertex_cell loc ep xscale yscale (edge_w e) then ''vertex''
              else if Some c \<in> set (edge_cells loc ep xscale yscale lenEP e) then l
              else g ! nat c)" if "0 \<le> c" for c
    using that dc cv cw cells by (auto simp: nth_update_cell)
qed

lemma plotMST_edges_label:
  "plotMST_edges loc ep xscale yscale lenEP es (g, d) = Inr (g', d') \<Longrightarrow> 0 \<le> c \<Longrightarrow>
   length g' = length g \<and>
   g' ! nat c = label_after (vertex_cell loc ep xscale yscale)
                  (edge_cells loc ep xscale yscale lenEP) es c (g ! nat c)"
proof (induction es arbitrary: g d)
  case Nil
  then show ?case by simp
next
  case (Cons e0 es)
  from Cons.prems(1) obtain e g1 len where
    e0: "e0 = Some e" and
    pe: "plot_edge loc ep xscale yscale lenEP ''edge'' e g = Inr (g1, len)" and
    rest: "plotMST_edges loc ep xscale yscale lenEP es (g1, fadd d len) = Inr (g', d')"
    by (auto simp: and_then_Inr split: option.splits)
  from plot_edge_cells(1)[OF pe] plot_edge_cells(4)[OF pe Cons.prems(2)]
    Cons.IH[OF rest Cons.prems(2)] e0
  show ?case by (simp add: edge_label_def)
qed

lemma plotMST_edges_in_grid:
  "plotMST_edges loc ep xscale yscale lenEP es (g, d) = Inr (g', d') \<Longrightarrow>
   i < length es \<Longrightarrow>
   \<exists>e cv cw. es ! i = Some e \<and>
     vertex_cell loc ep xscale yscale (edge_v e) = Some cv \<and> 0 \<le> cv \<and> cv < int (length g) \<and>
     vertex_cell loc ep xscale yscale (edge_w e) = Some cw \<and> 0 \<le> cw \<and> cw < int (length g)"
proof (induction es arbitrary: g d i)
  case Nil
  then show ?case by simp
next
  case (Cons e0 es)
  from Cons.prems(1) obtain e g1 len where
    e0: "e0 = Some e" and
    pe: "plot_edge loc ep xscale yscale lenEP ''edge'' e g = Inr (g1, len)" and
    rest: "plotMST_edges loc ep xscale yscale lenEP es (g1, fadd d len) = Inr (g', d')"
    by (auto simp: and_then_Inr split: option.splits)
  show ?case
  proof (cases i)
    case 0
    with plot_edge_cells(2,3)[OF pe] e0 show ?thesis by auto
  next
    case (Suc i')
    with Cons.prems(2) have "i' < length es" by simp
    from Cons.IH[OF rest this] plot_edge_cells(1)[OF pe] Suc show ?thesis by simp
  qed
qed

text \<open>
  \<open>label_after\<close> is \<open>vertex\<close> exactly when some edge marks the cell and every edge after
  it that has a sample point in the cell marks the cell as well, or when the cell held
  \<open>vertex\<close> before and no edge has relabelled it.
\<close>

lemma label_after_step:
  "label_after vc ec (eo # es) c l =
     label_after vc ec es c
       (if marks vc c eo then ''vertex'' else if samples ec c eo then ''edge'' else l)"
  by (cases eo) (simp_all add: marks_def samples_def edge_label_def)

lemma label_after_vertex_or_edge:
  "l = ''vertex'' \<or> l = ''edge'' \<Longrightarrow>
   label_after vc ec es c l = ''vertex'' \<or> label_after vc ec es c l = ''edge''"
proof (induction es arbitrary: l)
  case Nil
  then show ?case by simp
next
  case (Cons eo es)
  show ?case unfolding label_after_step by (rule Cons.IH) (use Cons.prems in auto)
qed

lemma label_after_marked:
  "k < length es \<Longrightarrow> marks vc c (es ! k) \<Longrightarrow>
   label_after vc ec es c l = ''vertex'' \<or> label_after vc ec es c l = ''edge''"
proof (induction es arbitrary: l k)
  case Nil
  then show ?case by simp
next
  case (Cons eo es)
  show ?case
  proof (cases k)
    case 0
    with Cons.prems have "marks vc c eo" by simp
    then show ?thesis unfolding label_after_step
      by (simp add: label_after_vertex_or_edge)
  next
    case (Suc k')
    with Cons.prems have "k' < length es" "marks vc c (es ! k')" by simp_all
    then show ?thesis unfolding label_after_step by (rule Cons.IH)
  qed
qed

lemma label_after_vertex_iff:
  "label_after vc ec es c l = ''vertex'' \<longleftrightarrow>
     (\<exists>k < length es. marks vc c (es ! k) \<and>
        (\<forall>j. k < j \<and> j < length es \<longrightarrow> samples ec c (es ! j) \<longrightarrow> marks vc c (es ! j))) \<or>
     (l = ''vertex'' \<and> (\<forall>j < length es. samples ec c (es ! j) \<longrightarrow> marks vc c (es ! j)))"
  (is "?L es l \<longleftrightarrow> ?A es \<or> ?B es l")
proof (induction es arbitrary: l)
  case Nil
  then show ?case by simp
next
  case (Cons eo es)
  let ?ok = "\<lambda>e. samples ec c e \<longrightarrow> marks vc c e"
  have A: "?A (eo # es) \<longleftrightarrow> (marks vc c eo \<and> (\<forall>j < length es. ?ok (es ! j))) \<or> ?A es"
  proof
    assume "?A (eo # es)"
    then obtain k where k: "k < length (eo # es)" "marks vc c ((eo # es) ! k)"
      "\<forall>j. k < j \<and> j < length (eo # es) \<longrightarrow> ?ok ((eo # es) ! j)" by blast
    show "(marks vc c eo \<and> (\<forall>j < length es. ?ok (es ! j))) \<or> ?A es"
    proof (cases k)
      case 0
      with k(2) have "marks vc c eo" by simp
      moreover have "\<forall>j < length es. ?ok (es ! j)"
      proof (intro allI impI)
        fix j assume "j < length es" "samples ec c (es ! j)"
        with k(3)[rule_format, of "Suc j"] 0 show "marks vc c (es ! j)" by simp
      qed
      ultimately show ?thesis by blast
    next
      case (Suc k')
      with k have "k' < length es" "marks vc c (es ! k')" by simp_all
      moreover have "\<forall>j. k' < j \<and> j < length es \<longrightarrow> ?ok (es ! j)"
      proof (intro allI impI)
        fix j assume "k' < j \<and> j < length es" "samples ec c (es ! j)"
        with k(3)[rule_format, of "Suc j"] Suc show "marks vc c (es ! j)" by simp
      qed
      ultimately show ?thesis by blast
    qed
  next
    assume "(marks vc c eo \<and> (\<forall>j < length es. ?ok (es ! j))) \<or> ?A es"
    then show "?A (eo # es)"
    proof
      assume a: "marks vc c eo \<and> (\<forall>j < length es. ?ok (es ! j))"
      have "\<forall>j. 0 < j \<and> j < length (eo # es) \<longrightarrow> ?ok ((eo # es) ! j)"
      proof (intro allI impI)
        fix j assume j: "0 < j \<and> j < length (eo # es)" "samples ec c ((eo # es) ! j)"
        then obtain j' where "j = Suc j'" by (cases j) auto
        with j a show "marks vc c ((eo # es) ! j)" by simp
      qed
      with a show ?thesis by (intro exI[of _ 0]) simp
    next
      assume "?A es"
      then obtain k where k: "k < length es" "marks vc c (es ! k)"
        "\<forall>j. k < j \<and> j < length es \<longrightarrow> ?ok (es ! j)" by blast
      have "\<forall>j. Suc k < j \<and> j < length (eo # es) \<longrightarrow> ?ok ((eo # es) ! j)"
      proof (intro allI impI)
        fix j assume j: "Suc k < j \<and> j < length (eo # es)" "samples ec c ((eo # es) ! j)"
        then obtain j' where "j = Suc j'" by (cases j) auto
        with j k(3)[rule_format, of j'] show "marks vc c ((eo # es) ! j)" by simp
      qed
      with k(1,2) show ?thesis by (intro exI[of _ "Suc k"]) simp
    qed
  qed
  have B: "(\<forall>j < length (eo # es). ?ok ((eo # es) ! j)) \<longleftrightarrow>
      ?ok eo \<and> (\<forall>j < length es. ?ok (es ! j))"
    by (simp add: All_less_Suc2)
  show ?case
    unfolding label_after_step Cons.IH A B by auto
qed

lemma slot_predicates:
  "marks (vertex_cell (location p) (endpoints p) (xscale_of (endpoints p)) (yscale_of (endpoints p)))
     c (mst p ! k) = endpoint_in p (Some c) k"
  "samples (edge_cells (location p) (endpoints p) (xscale_of (endpoints p)) (yscale_of (endpoints p))
     (lenEP_of (endpoints p))) c (mst p ! k) = sample_in p (Some c) k"
  by (cases "mst p ! k"; simp add: marks_def samples_def endpoint_in_def sample_in_def
      mst_vertex_cell_def mst_edge_cells_def)+

lemma vertex_last_drop:
  assumes "0 < length (mst p)"
  shows "vertex_last p (Some c) \<longleftrightarrow>
     (\<exists>k < length (drop 1 (mst p)).
        marks (vertex_cell (location p) (endpoints p) (xscale_of (endpoints p)) (yscale_of (endpoints p)))
          c (drop 1 (mst p) ! k) \<and>
        (\<forall>j. k < j \<and> j < length (drop 1 (mst p)) \<longrightarrow>
           samples (edge_cells (location p) (endpoints p) (xscale_of (endpoints p))
              (yscale_of (endpoints p)) (lenEP_of (endpoints p))) c (drop 1 (mst p) ! j) \<longrightarrow>
           marks (vertex_cell (location p) (endpoints p) (xscale_of (endpoints p))
              (yscale_of (endpoints p))) c (drop 1 (mst p) ! j)))"
  (is "?L \<longleftrightarrow> ?R")
proof
  assume ?L
  then obtain k where k: "1 \<le> k" "k < length (mst p)" "endpoint_in p (Some c) k"
    "\<forall>j \<in> {Suc k ..< length (mst p)}. sample_in p (Some c) j \<longrightarrow> endpoint_in p (Some c) j"
    by (auto simp: vertex_last_def)
  then obtain k' where k': "k = Suc k'" by (cases k) auto
  show ?R
  proof (intro exI[of _ k'] conjI allI impI)
    show "k' < length (drop 1 (mst p))" using k k' by simp
    show "marks (vertex_cell (location p) (endpoints p) (xscale_of (endpoints p))
        (yscale_of (endpoints p))) c (drop 1 (mst p) ! k')"
      using k k' by (simp add: slot_predicates)
  next
    fix j
    assume j: "k' < j \<and> j < length (drop 1 (mst p))"
      and s: "samples (edge_cells (location p) (endpoints p) (xscale_of (endpoints p))
              (yscale_of (endpoints p)) (lenEP_of (endpoints p))) c (drop 1 (mst p) ! j)"
    from j k' have "Suc j \<in> {Suc k ..< length (mst p)}" by auto
    with k(4) s j show "marks (vertex_cell (location p) (endpoints p) (xscale_of (endpoints p))
              (yscale_of (endpoints p))) c (drop 1 (mst p) ! j)"
      by (simp add: slot_predicates)
  qed
next
  assume ?R
  then obtain k where k: "k < length (drop 1 (mst p))"
    "marks (vertex_cell (location p) (endpoints p) (xscale_of (endpoints p))
        (yscale_of (endpoints p))) c (drop 1 (mst p) ! k)"
    "\<forall>j. k < j \<and> j < length (drop 1 (mst p)) \<longrightarrow>
           samples (edge_cells (location p) (endpoints p) (xscale_of (endpoints p))
              (yscale_of (endpoints p)) (lenEP_of (endpoints p))) c (drop 1 (mst p) ! j) \<longrightarrow>
           marks (vertex_cell (location p) (endpoints p) (xscale_of (endpoints p))
              (yscale_of (endpoints p))) c (drop 1 (mst p) ! j)"
    by blast
  have "\<forall>j \<in> {Suc (Suc k) ..< length (mst p)}.
      sample_in p (Some c) j \<longrightarrow> endpoint_in p (Some c) j"
  proof (intro ballI impI)
    fix j assume j: "j \<in> {Suc (Suc k) ..< length (mst p)}" and s: "sample_in p (Some c) j"
    then obtain j' where j': "j = Suc j'" by (cases j) auto
    with j have "k < j' \<and> j' < length (drop 1 (mst p))" by auto
    with k(3)[rule_format, of j'] s j' show "endpoint_in p (Some c) j"
      by (simp add: slot_predicates)
  qed
  moreover have "Suc k \<in> {1 ..< length (mst p)}" "endpoint_in p (Some c) (Suc k)"
    using k(1,2) by (auto simp: slot_predicates)
  ultimately show ?L unfolding vertex_last_def by blast
qed

section \<open>The claims about the plots\<close>

text \<open>
  The highlight of a cell of the grid: in the first and in the last row it panics, in
  every other row its five writes are indices of the grid.
\<close>

lemma mark_plus_first_row:
  "length g = nat (rows * columns) \<Longrightarrow> 0 \<le> col \<Longrightarrow> col < columns \<Longrightarrow>
   mark_plus g 0 col l = Inl IndexOutOfRange"
  by (simp add: mark_plus_def and_then_def set_cell_def columns_def rows_def wrap64_small)

lemma mark_plus_last_row:
  "length g = nat (rows * columns) \<Longrightarrow> 0 \<le> col \<Longrightarrow> col < columns \<Longrightarrow>
   mark_plus g (rows - 1) col l = Inl IndexOutOfRange"
  by (simp add: mark_plus_def and_then_def set_cell_def columns_def rows_def wrap64_small)

lemma mark_plus_inner_row:
  "length g = nat (rows * columns) \<Longrightarrow> 0 < row \<Longrightarrow> row < rows - 1 \<Longrightarrow>
   0 \<le> col \<Longrightarrow> col < columns \<Longrightarrow> \<exists>g'. mark_plus g row col l = Inr g'"
  by (simp add: mark_plus_def and_then_def set_cell_def columns_def rows_def wrap64_small)

text \<open>
  C3.  The five writes that highlight a point are not guarded: for a point in the first
  row of the grid the write to the cell above it has a negative index.  The two points of
  \<open>top2\<close> lie on the upper border of their bounds; \<open>findMST\<close> returns their tree, and
  \<open>plotMST\<close>, which highlights vertex 0 as the start vertex, panics with an index out of
  range instead of skipping the cell outside the grid.
\<close>

theorem plotMST_border_panics:
  "findMST (findDistances (top2\<lparr>graph := [], mst := []\<rparr>)) = Some (Inr top2) \<and>
   plotMST top2 = Inl IndexOutOfRange"
  using findMST_top2 plotMST_top2 by (rule conjI)

text \<open>
  C7, as the claim states it, fails: for the four points of \<open>row4\<close>, whose tree
  \<open>findMST\<close> builds, vertex 1 is an endpoint of the edge of slot 1, and when the loop of
  \<open>plotMST\<close> has ended the cell of vertex 1 is labelled \<open>edge\<close>: the edge of slot 2,
  which is drawn later and joins the vertices 3 and 2, has a sample point in that cell.
\<close>

theorem plotMST_later_edge_relabels_vertex:
  "findMST (findDistances (row4\<lparr>graph := [], mst := []\<rparr>)) = Some (Inr row4) \<and>
   mst row4 ! 1 = Some \<lparr>edge_v = 2, edge_w = 1\<rparr> \<and>
   loop_label row4 (mst_vertex_cell row4 1) = Some ''edge''"
proof -
  have "loop_label row4 (mst_vertex_cell row4 1) = Some ''edge''"
    unfolding cells_row4 loop_label_def using plotMST_loop_row4 by auto
  moreover have "mst row4 ! 1 = Some \<lparr>edge_v = 2, edge_w = 1\<rparr>"
    by (simp add: row4_def)
  ultimately show ?thesis using findMST_row4 by simp
qed

text \<open>
  C7, amended.  When the loop of \<open>plotMST\<close> over the edges has ended, the cell of an
  endpoint \<open>u\<close> of an edge of the tree is labelled by the last write to it: it is labelled
  \<open>vertex\<close> when some edge with an endpoint in the cell is followed only by edges that
  have no sample point in the cell or have an endpoint in it as well, and \<open>edge\<close>
  otherwise.
\<close>

theorem plotMST_vertex_precedence:
  assumes run: "plotMST_loop p = Inr gd"
    and i: "0 < i" "i < length (mst p)" "mst p ! i = Some e"
    and u: "u = edge_v e \<or> u = edge_w e"
  shows "loop_label p (mst_vertex_cell p u) =
           Some (if vertex_last p (mst_vertex_cell p u) then ''vertex'' else ''edge'')"
proof -
  let ?es = "drop 1 (mst p)"
  let ?vc = "vertex_cell (location p) (endpoints p) (xscale_of (endpoints p)) (yscale_of (endpoints p))"
  let ?ec = "edge_cells (location p) (endpoints p) (xscale_of (endpoints p))
                (yscale_of (endpoints p)) (lenEP_of (endpoints p))"
  let ?g0 = "replicate (nat (rows * columns)) ([]::string)"
  obtain g d where gd: "gd = (g, d)" by (cases gd)
  from run gd have r: "plotMST_edges (location p) (endpoints p) (xscale_of (endpoints p))
      (yscale_of (endpoints p)) (lenEP_of (endpoints p)) ?es (?g0, Finite 0) = Inr (g, d)"
    by (simp add: plotMST_loop_def Let_def split: if_splits)
  from i have a: "i - 1 < length ?es" "?es ! (i - 1) = Some e" by simp_all
  from plotMST_edges_in_grid[OF r a(1)] a(2) u obtain c where
    c: "?vc u = Some c" "0 \<le> c" "c < int (length ?g0)"
    by auto
  from c(2,3) have "nat c < length ?g0" by linarith
  then have empty: "?g0 ! nat c = []" by (simp only: length_replicate nth_replicate)
  from plotMST_edges_label[OF r c(2)]
  have len: "length g = length ?g0"
    and lab: "g ! nat c = label_after ?vc ?ec ?es c []"
    unfolding empty by blast+
  have m: "marks ?vc c (?es ! (i - 1))" using a(2) c(1) u by (auto simp: marks_def)
  from label_after_marked[OF a(1) m]
  have ve: "label_after ?vc ?ec ?es c [] = ''vertex'' \<or> label_after ?vc ?ec ?es c [] = ''edge''" .
  from i(2) have pos: "0 < length (mst p)" by linarith
  have "label_after ?vc ?ec ?es c [] = ''vertex'' \<longleftrightarrow> vertex_last p (Some c)"
    unfolding label_after_vertex_iff vertex_last_drop[OF pos] by simp
  with ve have "label_after ?vc ?ec ?es c [] =
      (if vertex_last p (Some c) then ''vertex'' else ''edge'')"
    by auto
  with lab have "g ! nat c = (if vertex_last p (Some c) then ''vertex'' else ''edge'')" by simp
  moreover have "loop_label p (Some c) = Some (g ! nat c)"
    using run gd c(2,3) len by (simp add: loop_label_def)
  ultimately show ?thesis using c(1) by (simp add: mst_vertex_cell_def)
qed

text \<open>
  The five points of \<open>row5\<close>, whose tree \<open>findMST\<close> builds.  Vertex 3 is an endpoint of the
  edge of slot 1.  The edge of slot 2, which joins the vertices 4 and 2, has a sample
  point in the cell of vertex 3 and no endpoint there; the edge of slot 3 ends in
  vertex 3, and the edge of slot 4 has no sample point.  The cell of vertex 3 is labelled
  \<open>vertex\<close>.
\<close>

theorem plotMST_vertex_precedence_witness:
  "findMST (findDistances (row5\<lparr>graph := [], mst := []\<rparr>)) = Some (Inr row5) \<and>
   mst row5 ! 1 = Some \<lparr>edge_v = 3, edge_w = 1\<rparr> \<and>
   mst row5 ! 2 = Some \<lparr>edge_v = 4, edge_w = 2\<rparr> \<and>
   mst row5 ! 3 = Some \<lparr>edge_v = 4, edge_w = 3\<rparr> \<and>
   mst_vertex_cell row5 3 = Some 89404 \<and>
   mst_edge_cells row5 \<lparr>edge_v = 4, edge_w = 2\<rparr> = [Some 89406, Some 89404] \<and>
   mst_vertex_cell row5 4 = Some 89406 \<and> mst_vertex_cell row5 2 = Some 89402 \<and>
   loop_label row5 (mst_vertex_cell row5 3) = Some ''vertex''"
proof -
  from plotMST_loop_row5 obtain gd where run: "plotMST_loop row5 = Inr gd" by blast
  have slots: "mst row5 ! 1 = Some \<lparr>edge_v = 3, edge_w = 1\<rparr>"
    "mst row5 ! 2 = Some \<lparr>edge_v = 4, edge_w = 2\<rparr>"
    "mst row5 ! 3 = Some \<lparr>edge_v = 4, edge_w = 3\<rparr>"
    "mst row5 ! 4 = Some \<lparr>edge_v = 0, edge_w = 4\<rparr>"
    and len: "length (mst row5) = 5"
    by (simp_all add: row5_def)
  have none: "mst_edge_cells row5 \<lparr>edge_v = 0, edge_w = 4\<rparr> = []"
    by (simp add: mst_edge_cells_def edge_cells_def Let_def row5_def columns_def rows_def
        lenEP_bounds0 length_row5 ncells_1495)
  have "endpoint_in row5 (Some 89404) 3"
    by (simp add: endpoint_in_def slots cells_row5)
  moreover have "\<forall>j \<in> {Suc 3 ..< length (mst row5)}.
      sample_in row5 (Some 89404) j \<longrightarrow> endpoint_in row5 (Some 89404) j"
  proof (intro ballI impI)
    fix j assume "j \<in> {Suc 3 ..< length (mst row5)}" and s: "sample_in row5 (Some 89404) j"
    then have "j = 4" using len by auto
    with s show "endpoint_in row5 (Some 89404) j" by (simp add: sample_in_def slots none)
  qed
  moreover have "(3::nat) \<in> {1 ..< length (mst row5)}" using len by simp
  ultimately have last: "vertex_last row5 (Some 89404)"
    unfolding vertex_last_def by blast
  have "loop_label row5 (mst_vertex_cell row5 3) =
      Some (if vertex_last row5 (mst_vertex_cell row5 3) then ''vertex'' else ''edge'')"
    by (rule plotMST_vertex_precedence[OF run _ _ slots(1)]) (simp_all add: len)
  with last have "loop_label row5 (mst_vertex_cell row5 3) = Some ''vertex''"
    by (simp add: cells_row5)
  with findMST_row5 slots(1-3) cells_row5 show ?thesis by simp
qed


section \<open>The claims about the shortest path\<close>

text \<open>
  C5.  \<open>findSP\<close> returns the error "source and/or target vertices are invalid", with
  nothing but \<open>source\<close> and \<open>target\<close> changed, when the endpoints are equal or one of them
  is outside \<open>0 .. N - 1\<close>, where \<open>N\<close> is the number of vertices; for distinct endpoints
  in that range every return of \<open>findSP\<close> carries no error.
\<close>

theorem findSP_invalid_endpoints:
  "((s = t \<or> s < 0 \<or> int (length (sp_location dsp)) \<le> s \<or>
     t < 0 \<or> int (length (sp_location dsp)) \<le> t) \<longrightarrow>
      findSP dsp s t = Some (Inr (Some InvalidEndpoints, dsp\<lparr>source := s, target := t\<rparr>))) \<and>
   (\<not> (s = t \<or> s < 0 \<or> int (length (sp_location dsp)) \<le> s \<or>
       t < 0 \<or> int (length (sp_location dsp)) \<le> t) \<longrightarrow>
      (\<forall>err d. findSP dsp s t = Some (Inr (err, d)) \<longrightarrow> err = None))"
  by (auto simp: findSP_def Let_def split: sum.splits option.splits if_splits)

theorem findSP_invalid_endpoints_witness:
  "findSP (query4 empty_plot) 1 1 =
     Some (Inr (Some InvalidEndpoints, (query4 empty_plot)\<lparr>source := 1, target := 1\<rparr>)) \<and>
   findSP (query4 empty_plot) 7 2 =
     Some (Inr (Some InvalidEndpoints, (query4 empty_plot)\<lparr>source := 7, target := 2\<rparr>)) \<and>
   findSP (query4 empty_plot) 3 (- 1) =
     Some (Inr (Some InvalidEndpoints, (query4 empty_plot)\<lparr>source := 3, target := - 1\<rparr>)) \<and>
   findSP (query4 empty_plot) 3 2 =
     Some (Inr (None, (query4 empty_plot)\<lparr>source := 3, target := 2,
        edgeTo := [Some 3, None, Some 2, None], distTo := [1, MaxFloat64, 2, 0],
        adj := [[2, 3], [1], [1, 2], [3]]\<rparr>))"
proof -
  have n: "int (length (sp_location (query4 empty_plot))) = 4"
    by (simp add: query4_def)
  have a: "findSP (query4 empty_plot) 1 1 =
     Some (Inr (Some InvalidEndpoints, (query4 empty_plot)\<lparr>source := 1, target := 1\<rparr>))"
    using findSP_invalid_endpoints[of 1 1 "query4 empty_plot"] by simp
  have b: "findSP (query4 empty_plot) 7 2 =
     Some (Inr (Some InvalidEndpoints, (query4 empty_plot)\<lparr>source := 7, target := 2\<rparr>))"
    using findSP_invalid_endpoints[of 7 2 "query4 empty_plot"] n by simp
  have c: "findSP (query4 empty_plot) 3 (- 1) =
     Some (Inr (Some InvalidEndpoints, (query4 empty_plot)\<lparr>source := 3, target := - 1\<rparr>))"
    using findSP_invalid_endpoints[of 3 "- 1" "query4 empty_plot"] by simp
  from a b c findSP_query4_3_2[of empty_plot] show ?thesis by (intro conjI)
qed

text \<open>
  C10.  When \<open>dsp.distTo\<close> is empty, or the distance of the target is still
  \<open>math.MaxFloat64\<close>, \<open>plotSP\<close> returns the error "distance to vertex ... not found" and
  the \<open>DijksraSP\<close>, with its plot and the grid of the plot, is what it was.
\<close>

theorem plotSP_error_changes_nothing:
  "length (distTo dsp) = 0 \<or>
     (0 \<le> target dsp \<and> target dsp < int (length (distTo dsp)) \<and>
      distTo dsp ! nat (target dsp) = MaxFloat64)
   \<Longrightarrow> plotSP dsp = Some (Inr (Some (DistanceNotFound (target dsp)), dsp))"
  by (rule plotSP_guard)

theorem plotSP_error_changes_nothing_witness:
  "plotSP ((query4 empty_plot)\<lparr>source := 1, target := 1\<rparr>) =
     Some (Inr (Some (DistanceNotFound 1), (query4 empty_plot)\<lparr>source := 1, target := 1\<rparr>))"
  using plotSP_error_changes_nothing[of "(query4 empty_plot)\<lparr>source := 1, target := 1\<rparr>"]
  by (simp add: query4_def)

text \<open>
  C4.  When \<open>findSP\<close> has returned without error and the distance of the target is still
  \<open>math.MaxFloat64\<close>, \<open>plotSP\<close> returns the error "distance to vertex ... not found" for
  that target, which the handler puts in the status of the page.
\<close>

theorem unreached_target_is_an_error:
  "findSP dsp s t = Some (Inr (None, d)) \<Longrightarrow> distTo d ! nat t = MaxFloat64 \<Longrightarrow>
   plotSP d = Some (Inr (Some (DistanceNotFound t), d))"
  using findSP_inv[of dsp s t None d] plotSP_guard[of d] by auto

theorem unreached_target_is_an_error_witness:
  "findSP (query4 empty_plot) 2 3 =
     Some (Inr (None, (query4 empty_plot)\<lparr>source := 2, target := 3,
        edgeTo := [Some 2, Some 1, None, None], distTo := [1, 1, 0, MaxFloat64],
        adj := [[2, 3], [1], [1, 2], [3]],
        sp_mst := [None, Some \<lparr>edge_v = 1, edge_w = 2\<rparr>, Some \<lparr>edge_v = 2, edge_w = 0\<rparr>,
                   Some \<lparr>edge_v = 0, edge_w = 3\<rparr>]\<rparr>)) \<and>
   plotSP ((query4 empty_plot)\<lparr>source := 2, target := 3,
        edgeTo := [Some 2, Some 1, None, None], distTo := [1, 1, 0, MaxFloat64],
        adj := [[2, 3], [1], [1, 2], [3]],
        sp_mst := [None, Some \<lparr>edge_v = 1, edge_w = 2\<rparr>, Some \<lparr>edge_v = 2, edge_w = 0\<rparr>,
                   Some \<lparr>edge_v = 0, edge_w = 3\<rparr>]\<rparr>) =
     Some (Inr (Some (DistanceNotFound 3), (query4 empty_plot)\<lparr>source := 2, target := 3,
        edgeTo := [Some 2, Some 1, None, None], distTo := [1, 1, 0, MaxFloat64],
        adj := [[2, 3], [1], [1, 2], [3]],
        sp_mst := [None, Some \<lparr>edge_v = 1, edge_w = 2\<rparr>, Some \<lparr>edge_v = 2, edge_w = 0\<rparr>,
                   Some \<lparr>edge_v = 0, edge_w = 3\<rparr>]\<rparr>))"
proof -
  note f = findSP_query4_2_3[of empty_plot]
  have "plotSP ((query4 empty_plot)\<lparr>source := 2, target := 3,
        edgeTo := [Some 2, Some 1, None, None], distTo := [1, 1, 0, MaxFloat64],
        adj := [[2, 3], [1], [1, 2], [3]],
        sp_mst := [None, Some \<lparr>edge_v = 1, edge_w = 2\<rparr>, Some \<lparr>edge_v = 2, edge_w = 0\<rparr>,
                   Some \<lparr>edge_v = 0, edge_w = 3\<rparr>]\<rparr>) =
     Some (Inr (Some (DistanceNotFound 3), (query4 empty_plot)\<lparr>source := 2, target := 3,
        edgeTo := [Some 2, Some 1, None, None], distTo := [1, 1, 0, MaxFloat64],
        adj := [[2, 3], [1], [1, 2], [3]],
        sp_mst := [None, Some \<lparr>edge_v = 1, edge_w = 2\<rparr>, Some \<lparr>edge_v = 2, edge_w = 0\<rparr>,
                   Some \<lparr>edge_v = 0, edge_w = 3\<rparr>]\<rparr>))"
    by (rule unreached_target_is_an_error[OF f]) (simp add: query4_def)
  with f show ?thesis by (rule conjI)
qed

text \<open>
  C9.  \<open>findSP\<close> and \<open>plotSP\<close> write to the edges of the tree only by exchanging the
  fields \<open>v\<close> and \<open>w\<close> of an edge: after a query the tree has the same number of slots and
  every slot holds the same unordered pair of vertices as before (a nil slot stays nil).
  The witness shows that the fields of an edge are indeed exchanged.
\<close>

theorem query_keeps_tree_edges:
  "findSP dsp s t = Some (Inr (e1, dsp1)) \<Longrightarrow> plotSP dsp1 = Some (Inr (e2, dsp2)) \<Longrightarrow>
   same_edges (sp_mst dsp) (sp_mst dsp1) \<and> same_edges (sp_mst dsp) (sp_mst dsp2)"
  using findSP_inv[of dsp s t e1 dsp1] plotSP_inv[of dsp1 e2 dsp2]
  by (auto intro: same_edges_trans)

theorem query_keeps_tree_edges_witness:
  "\<exists>d1 d2. findSP (query4 empty_plot) 3 2 = Some (Inr (None, d1)) \<and>
     plotSP d1 = Some (Inr (None, d2)) \<and>
     same_edges (sp_mst (query4 empty_plot)) (sp_mst d1) \<and>
     same_edges (sp_mst (query4 empty_plot)) (sp_mst d2) \<and>
     sp_mst (query4 empty_plot) ! 3 = Some \<lparr>edge_v = 0, edge_w = 3\<rparr> \<and>
     sp_mst d2 ! 3 = Some \<lparr>edge_v = 3, edge_w = 0\<rparr>"
proof -
  note f = findSP_query4_3_2[of empty_plot]
  from plotSP_query4_3_2[OF empty_plot_fields(1)] obtain d2 where
    p: "plotSP ((query4 empty_plot)\<lparr>source := 3, target := 2,
        edgeTo := [Some 3, None, Some 2, None], distTo := [1, MaxFloat64, 2, 0],
        adj := [[2, 3], [1], [1, 2], [3]]\<rparr>) = Some (Inr (None, d2))" and
    m: "sp_mst d2 = [None, Some \<lparr>edge_v = 2, edge_w = 1\<rparr>, Some \<lparr>edge_v = 0, edge_w = 2\<rparr>,
                   Some \<lparr>edge_v = 3, edge_w = 0\<rparr>]"
    by blast
  from query_keeps_tree_edges[OF f p] f p m show ?thesis
    by (auto simp: query4_def tree4_def)
qed

text \<open>
  C6.  For the four points of \<open>line4\<close>, \<open>findMST\<close> builds the tree with the edges 2-1,
  0-2 and 0-3.  The query from vertex 2 to vertex 3 ends with the error "distance to
  vertex 3 not found" and no length, the query from vertex 3 to vertex 2 finds the path
  of length 2: when vertex 2 is relaxed, vertex 0 is looked up at key 0 of the queue,
  where the item of vertex 1 lies, so vertex 0 is never pushed and vertex 3 is never
  reached.
\<close>

theorem shortest_path_not_symmetric:
  "findMST (findDistances line4) = Some (Inr (line4\<lparr>graph := graph4, mst := tree4\<rparr>)) \<and>
   sp_result (query4 empty_plot) 2 3 = Some (Inr (None, Some (DistanceNotFound 3), None)) \<and>
   sp_result (query4 empty_plot) 3 2 = Some (Inr (None, None, Some (Finite 2)))"
proof -
  have g: "plotSP ((query4 empty_plot)\<lparr>source := 2, target := 3,
        edgeTo := [Some 2, Some 1, None, None], distTo := [1, 1, 0, MaxFloat64],
        adj := [[2, 3], [1], [1, 2], [3]],
        sp_mst := [None, Some \<lparr>edge_v = 1, edge_w = 2\<rparr>, Some \<lparr>edge_v = 2, edge_w = 0\<rparr>,
                   Some \<lparr>edge_v = 0, edge_w = 3\<rparr>]\<rparr>) =
     Some (Inr (Some (DistanceNotFound 3), (query4 empty_plot)\<lparr>source := 2, target := 3,
        edgeTo := [Some 2, Some 1, None, None], distTo := [1, 1, 0, MaxFloat64],
        adj := [[2, 3], [1], [1, 2], [3]],
        sp_mst := [None, Some \<lparr>edge_v = 1, edge_w = 2\<rparr>, Some \<lparr>edge_v = 2, edge_w = 0\<rparr>,
                   Some \<lparr>edge_v = 0, edge_w = 3\<rparr>]\<rparr>))"
    using plotSP_guard[of "(query4 empty_plot)\<lparr>source := 2, target := 3,
        edgeTo := [Some 2, Some 1, None, None], distTo := [1, 1, 0, MaxFloat64],
        adj := [[2, 3], [1], [1, 2], [3]],
        sp_mst := [None, Some \<lparr>edge_v = 1, edge_w = 2\<rparr>, Some \<lparr>edge_v = 2, edge_w = 0\<rparr>,
                   Some \<lparr>edge_v = 0, edge_w = 3\<rparr>]\<rparr>"]
    by (simp add: query4_def)
  have a: "sp_result (query4 empty_plot) 2 3 = Some (Inr (None, Some (DistanceNotFound 3), None))"
    unfolding sp_result_def sp_query_def findSP_query4_2_3
    by (simp only: option.case sum.case fst_conv snd_conv g)
      (simp add: query4_def empty_plot_fields)
  from plotSP_query4_3_2[OF empty_plot_fields(1)] obtain d2 where
    p: "plotSP ((query4 empty_plot)\<lparr>source := 3, target := 2,
        edgeTo := [Some 3, None, Some 2, None], distTo := [1, MaxFloat64, 2, 0],
        adj := [[2, 3], [1], [1, 2], [3]]\<rparr>) = Some (Inr (None, d2))" and
    l: "DistanceSP (sp_plot d2) = Some (Finite 2)"
    by blast
  have b: "sp_result (query4 empty_plot) 3 2 = Some (Inr (None, None, Some (Finite 2)))"
    unfolding sp_result_def sp_query_def findSP_query4_3_2
    by (simp only: option.case sum.case fst_conv snd_conv p l)
  from findMST_line4 a b show ?thesis by simp
qed

section \<open>findMST returns, and fills every slot but the root's\<close>

text \<open>
  The functions of \<open>container/heap\<close> keep the length of the queue (a push adds one item,
  a pop takes one away), the edges of its items, and the positions recorded in them.
\<close>

declare up.simps [simp del] down.simps [simp del]

lemma up_unfold:
  "up h j = (if (j - 1) div 2 = j \<or> \<not> Less h j ((j - 1) div 2) then h
             else up (Swap h ((j - 1) div 2) j) ((j - 1) div 2))"
  by (subst up.simps) (simp add: Let_def)

lemma down_unfold:
  "down h i n =
     (if 2 * i + 1 \<ge> n then (h, i)
      else if \<not> Less h (if 2 * i + 1 + 1 < n \<and> Less h (2 * i + 1 + 1) (2 * i + 1)
                           then 2 * i + 1 + 1 else 2 * i + 1) i then (h, i)
      else down (Swap h i (if 2 * i + 1 + 1 < n \<and> Less h (2 * i + 1 + 1) (2 * i + 1)
                           then 2 * i + 1 + 1 else 2 * i + 1))
             (if 2 * i + 1 + 1 < n \<and> Less h (2 * i + 1 + 1) (2 * i + 1)
              then 2 * i + 1 + 1 else 2 * i + 1) n)"
  by (subst down.simps) (simp add: Let_def)

lemma length_Swap [simp]: "length (Swap h i j) = length h"
  by (simp add: Swap_def)

lemma edges_Swap:
  assumes "i < length h" "j < length h"
  shows "edge ` set (Swap h i j) = edge ` set h"
proof -
  have "map edge (Swap h i j) = (map edge h)[i := map edge h ! j, j := map edge h ! i]"
    using assms by (simp add: Swap_def map_update)
  moreover have "set ((map edge h)[i := map edge h ! j, j := map edge h ! i]) = set (map edge h)"
    using assms by (intro set_swap) simp_all
  ultimately have "set (map edge (Swap h i j)) = set (map edge h)" by (simp only:)
  then show ?thesis by simp
qed

lemma indexed_Swap: "indexed h \<Longrightarrow> i < length h \<Longrightarrow> j < length h \<Longrightarrow> indexed (Swap h i j)"
  by (auto simp: indexed_def Swap_def nth_list_update)

lemma nth_Swap_other: "k \<noteq> i \<Longrightarrow> k \<noteq> j \<Longrightarrow> Swap h i j ! k = h ! k"
  by (simp add: Swap_def)

lemma up_props:
  "j < length h \<Longrightarrow>
   length (up h j) = length h \<and> edge ` set ((up h j)) = edge ` set h \<and>
   (indexed h \<longrightarrow> indexed (up h j))"
proof (induction h j rule: up.induct)
  case (1 h j)
  let ?i = "(j - 1) div 2"
  show ?case
  proof (cases "?i = j \<or> \<not> Less h j ?i")
    case True
    then have "up h j = h" by (subst up_unfold) simp
    then show ?thesis by simp
  next
    case False
    have i: "?i < length h" using "1.prems" by simp
    from False have eq: "up h j = up (Swap h ?i j) ?i" by (subst up_unfold) simp
    from "1.IH"[OF refl False] i
    have "length (up (Swap h ?i j) ?i) = length h \<and>
          edge ` set ((up (Swap h ?i j) ?i)) = edge ` set ((Swap h ?i j)) \<and>
          (indexed (Swap h ?i j) \<longrightarrow> indexed (up (Swap h ?i j) ?i))"
      by simp
    with i "1.prems" show ?thesis
      unfolding eq by (simp add: edges_Swap indexed_Swap)
  qed
qed

lemma down_props:
  "n \<le> length h \<Longrightarrow>
   length (fst (down h i n)) = length h \<and>
   edge ` set (fst (down h i n)) = edge ` set h \<and>
   (indexed h \<longrightarrow> indexed (fst (down h i n))) \<and>
   (\<forall>k. n \<le> k \<longrightarrow> fst (down h i n) ! k = h ! k)"
proof (induction h i n rule: down.induct)
  case (1 h i n)
  define j where
    "j = (if 2 * i + 1 + 1 < n \<and> Less h (2 * i + 1 + 1) (2 * i + 1) then 2 * i + 1 + 1 else 2 * i + 1)"
  show ?case
  proof (cases "2 * i + 1 \<ge> n")
    case True
    then have "down h i n = (h, i)" by (subst down_unfold) simp
    then show ?thesis by simp
  next
    case False
    note j1 = this
    show ?thesis
    proof (cases "\<not> Less h j i")
      case True
      with j1 have "down h i n = (h, i)" by (subst down_unfold) (simp add: j_def)
      then show ?thesis by simp
    next
      case False
      have jn: "j < n" "i < j" using j1 by (auto simp: j_def)
      then have jl: "j < length h" "i < length h" using "1.prems" by auto
      have IH: "length (fst (down (Swap h i j) j n)) = length (Swap h i j) \<and>
          edge ` set (fst (down (Swap h i j) j n)) = edge ` set (Swap h i j) \<and>
          (indexed (Swap h i j) \<longrightarrow> indexed (fst (down (Swap h i j) j n))) \<and>
          (\<forall>k. n \<le> k \<longrightarrow> fst (down (Swap h i j) j n) ! k = Swap h i j ! k)"
        unfolding j_def
        by (rule "1.IH"[OF refl j1 refl]) (use False "1.prems" in \<open>simp_all add: j_def\<close>)
      have eq: "down h i n = down (Swap h i j) j n"
        using j1 False by (subst down_unfold) (simp add: j_def)
      have other: "\<forall>k. n \<le> k \<longrightarrow> Swap h i j ! k = h ! k"
        using jn by (auto simp: nth_Swap_other)
      from IH other jl show ?thesis
        unfolding eq by (simp add: edges_Swap indexed_Swap)
    qed
  qed
qed

lemma heap_Push_props:
  "length (heap_Push h x) = Suc (length h) \<and>
   edge ` set ((heap_Push h x)) = insert (edge x) (edge ` set h) \<and>
   (indexed h \<longrightarrow> indexed (heap_Push h x))"
proof -
  have p: "length (Push h x) = Suc (length h)"
    "edge ` set ((Push h x)) = insert (edge x) (edge ` set h)"
    "indexed h \<longrightarrow> indexed (Push h x)"
    by (auto simp: Push_def indexed_def nth_append)
  from up_props[of "length h" "Push h x"] p show ?thesis
    by (simp add: heap_Push_def Let_def Len_def)
qed

lemma heap_Fix_props:
  "i < length h \<Longrightarrow>
   length (heap_Fix h i) = length h \<and> edge ` set ((heap_Fix h i)) = edge ` set h \<and>
   (indexed h \<longrightarrow> indexed (heap_Fix h i))"
proof -
  assume i: "i < length h"
  obtain h' i' where d: "down h i (Len h) = (h', i')" by (cases "down h i (Len h)")
  from down_props[of "length h" h i] d
  have h': "length h' = length h" "edge ` set h' = edge ` set h"
    "indexed h \<longrightarrow> indexed h'"
    by (simp_all add: Len_def)
  from up_props[of i h'] i h' d show ?thesis
    by (simp add: heap_Fix_def)
qed

lemma update_props:
  "k < length h \<Longrightarrow> indexed h \<Longrightarrow>
   length (update h k d) = length h \<and> edge ` set ((update h k d)) = edge ` set h \<and>
   indexed (update h k d)"
proof -
  assume k: "k < length h" and ix: "indexed h"
  let ?h = "h[k := (h ! k)\<lparr>distance := d\<rparr>]"
  have a: "length ?h = length h" "map edge ?h = map edge h" "indexed ?h"
    "nat (index (?h ! k)) = k"
    using k ix by (auto simp: indexed_def nth_list_update map_update list_update_same_conv
        intro!: nth_equalityI)
  from a(2) have b: "edge ` set ?h = edge ` set h" by (metis set_map)
  from heap_Fix_props[of k ?h] a(1,3,4) b k show ?thesis
    by (simp add: update_def Let_def)
qed

lemma heap_Pop_props:
  assumes "0 < length h" "heap_Pop h = (item, q)"
  shows "length q = length h - 1"
    and "edge ` set h = insert (edge item) (edge ` set q)"
    and "indexed h \<longrightarrow> indexed q"
proof -
  let ?n = "length h - 1"
  let ?h1 = "Swap h 0 ?n"
  let ?h2 = "fst (down ?h1 0 ?n)"
  from assms(1) have n: "?n < length h" "0 < length h" by simp_all
  from down_props[of ?n ?h1 0] n
  have h2: "length ?h2 = length h" "edge ` set ?h2 = edge ` set h"
    "indexed h \<longrightarrow> indexed ?h2"
    by (simp_all add: edges_Swap indexed_Swap)
  from assms(2) have iq: "item = (?h2 ! ?n)\<lparr>index := - 1\<rparr>" "q = take ?n ?h2"
    using h2(1) by (simp_all add: heap_Pop_def Pop_def Let_def Len_def)
  show "length q = length h - 1" using iq h2(1) by simp
  have "Suc ?n = length ?h2" using h2(1) n by simp
  then have "take ?n ?h2 @ [?h2 ! ?n] = ?h2"
    by (metis lessI take_Suc_conv_app_nth take_all order_refl)
  then have "set ?h2 = insert (?h2 ! ?n) (set q)"
    using iq by (metis Un_insert_right append_Nil2 list.simps(15) set_append)
  then have "edge ` set ?h2 = insert (edge item) (edge ` set q)"
    using iq by simp
  with h2(2) show "edge ` set h = insert (edge item) (edge ` set q)"
    by simp
  show "indexed h \<longrightarrow> indexed q"
    using h2(3) iq by (auto simp: indexed_def)
qed

text \<open>
  Lowering \<open>distTo[w]\<close> to \<open>graph[v][w]\<close> takes the pair \<open>(v, w)\<close> out of the relaxable
  pairs and brings no pair in.  One pass of the body of \<open>visit\<close> for a marked \<open>v\<close>, when
  the root is marked, does not panic, keeps \<open>mst_inv\<close>, does not raise the measure and
  leaves \<open>distTo[w] \<le> graph[v][w]\<close> for an unmarked \<open>w\<close>.
\<close>

lemma finite_relaxable: "finite (relaxable g dt)"
proof -
  have "relaxable g dt \<subseteq> {..< length g} \<times> {..< length dt}"
    by (auto simp: relaxable_def)
  then show ?thesis by (rule finite_subset) simp
qed

lemma relaxable_decrease:
  assumes "vv < length g" "ww < length dt" "g ! vv ! ww < dt ! ww"
  shows "card (relaxable g (dt[ww := g ! vv ! ww])) < card (relaxable g dt)"
proof (rule psubset_card_mono[OF finite_relaxable])
  have "relaxable g (dt[ww := g ! vv ! ww]) \<subseteq> relaxable g dt"
    using assms by (auto simp: relaxable_def nth_list_update split: if_splits)
  moreover have "(vv, ww) \<in> relaxable g dt" using assms by (simp add: relaxable_def)
  moreover have "(vv, ww) \<notin> relaxable g (dt[ww := g ! vv ! ww])"
    using assms by (simp add: relaxable_def)
  ultimately show "relaxable g (dt[ww := g ! vv ! ww]) \<subset> relaxable g dt" by blast
qed

lemma visit_body_inv:
  assumes inv: "mst_inv g s" and m0: "m_marked s ! 0" and vv: "vv < length g"
    and ww: "ww < length g" and vm: "m_marked s ! vv"
  shows "\<exists>s'. visit_body vv s (ww, g ! vv ! ww) = Inr s' \<and> mst_inv g s' \<and>
           m_marked s' = m_marked s \<and> m_pops s' = m_pops s \<and>
           mst_measure g s' \<le> mst_measure g s \<and>
           (\<forall>w < length g. m_distTo s' ! w \<le> m_distTo s ! w) \<and>
           (\<not> m_marked s ! ww \<longrightarrow> m_distTo s' ! ww \<le> g ! vv ! ww)"
proof -
  from inv have len: "length (m_mst s) = length g" "length (m_marked s) = length g"
      "length (m_distTo s) = length g"
    and ix: "indexed (m_pq s)"
    and it: "\<forall>e \<in> edge ` set (m_pq s). edge_w e < length g"
    and sl: "\<forall>w < length g. slot_ok (length g) w (m_mst s ! w) (m_distTo s ! w)"
    by (simp_all add: mst_inv_def)
  let ?d = "g ! vv ! ww"
  show ?thesis
  proof (cases "m_marked s ! ww \<or> \<not> ?d < m_distTo s ! ww")
    case True
    then have "visit_body vv s (ww, ?d) = Inr s"
      using len ww by (auto simp: visit_body_def)
    with inv True show ?thesis by auto
  next
    case False
    then have um: "\<not> m_marked s ! ww" and lt: "?d < m_distTo s ! ww" by auto
    have w0: "ww \<noteq> 0" "vv \<noteq> ww"
    proof -
      show "ww \<noteq> 0" proof assume "ww = 0" with um m0 show False by simp qed
      show "vv \<noteq> ww" proof assume "vv = ww" with um vm show False by simp qed
    qed
    let ?mst = "(m_mst s)[ww := Some \<lparr>edge_v = vv, edge_w = ww\<rparr>]"
    let ?dt = "(m_distTo s)[ww := ?d]"
    let ?pq = "if ww < length (m_pq s) then update (m_pq s) ww ?d
               else heap_Push (m_pq s) \<lparr>edge = \<lparr>edge_v = vv, edge_w = ww\<rparr>, index = 0, distance = ?d\<rparr>"
    let ?s' = "s\<lparr>m_mst := ?mst, m_distTo := ?dt, m_pq := ?pq\<rparr>"
    have run: "visit_body vv s (ww, ?d) = Inr ?s'"
      using len ww um lt by (simp add: visit_body_def Let_def Len_def)
    have pq: "length ?pq \<le> Suc (length (m_pq s)) \<and> indexed ?pq \<and>
        (\<forall>e \<in> edge ` set ?pq. edge_w e < length g)"
    proof (cases "ww < length (m_pq s)")
      case True
      from update_props[OF True ix, of ?d] it True show ?thesis
        by (simp only: if_True) simp
    next
      case False
      let ?x = "\<lparr>edge = \<lparr>edge_v = vv, edge_w = ww\<rparr>, index = 0, distance = ?d\<rparr>"
      from heap_Push_props[of "m_pq s" ?x] ix
      have "length (heap_Push (m_pq s) ?x) = Suc (length (m_pq s))"
        "edge ` set (heap_Push (m_pq s) ?x) = insert (edge ?x) (edge ` set (m_pq s))"
        "indexed (heap_Push (m_pq s) ?x)"
        by blast+
      with it ww False show ?thesis
        by (simp only: if_False) simp
    qed
    have sl': "\<forall>w < length g. slot_ok (length g) w (?mst ! w) (?dt ! w)"
      using sl len vv ww w0 by (auto simp: nth_list_update slot_ok_def)
    have inv': "mst_inv g ?s'"
      using len pq sl' by (simp add: mst_inv_def del: set_map)
    have "card (relaxable g ?dt) < card (relaxable g (m_distTo s))"
      using relaxable_decrease[of vv g ww "m_distTo s"] vv ww len lt by simp
    then have ms: "mst_measure g ?s' \<le> mst_measure g s"
      using pq by (simp add: mst_measure_def)
    have mono: "\<forall>w < length g. m_distTo ?s' ! w \<le> m_distTo s ! w"
      using lt len ww by (auto simp: nth_list_update)
    have "m_distTo ?s' ! ww \<le> ?d" using ww len by simp
    with run inv' ms mono show ?thesis by simp
  qed
qed

lemma visit_range_inv:
  assumes "mst_inv g s" "m_marked s ! 0" "vv < length g" "m_marked s ! vv"
    and "\<forall>p \<in> set wds. fst p < length g \<and> snd p = g ! vv ! fst p"
  shows "\<exists>s'. visit_range vv s wds = Inr s' \<and> mst_inv g s' \<and>
           m_marked s' = m_marked s \<and> m_pops s' = m_pops s \<and>
           mst_measure g s' \<le> mst_measure g s \<and>
           (\<forall>w < length g. m_distTo s' ! w \<le> m_distTo s ! w) \<and>
           (\<forall>p \<in> set wds. \<not> m_marked s ! fst p \<longrightarrow> m_distTo s' ! fst p \<le> snd p)"
  using assms
proof (induction wds arbitrary: s)
  case Nil
  then show ?case by simp
next
  case (Cons wd wds)
  obtain ww d where wd: "wd = (ww, d)" by (cases wd)
  from Cons.prems(5) wd have w: "ww < length g" "d = g ! vv ! ww" by auto
  from visit_body_inv[OF Cons.prems(1,2,3) w(1) Cons.prems(4)] w(2)
  obtain s1 where s1: "visit_body vv s (ww, d) = Inr s1" "mst_inv g s1"
      "m_marked s1 = m_marked s" "m_pops s1 = m_pops s"
      "mst_measure g s1 \<le> mst_measure g s"
      "\<forall>w < length g. m_distTo s1 ! w \<le> m_distTo s ! w"
      "\<not> m_marked s ! ww \<longrightarrow> m_distTo s1 ! ww \<le> d"
    by auto
  from Cons.prems(5) have rest: "\<forall>p \<in> set wds. fst p < length g \<and> snd p = g ! vv ! fst p"
    by simp
  from Cons.IH[OF s1(2) _ Cons.prems(3) _ rest] s1(3) Cons.prems(2,4)
  obtain s2 where s2: "visit_range vv s1 wds = Inr s2" "mst_inv g s2"
      "m_marked s2 = m_marked s1" "m_pops s2 = m_pops s1"
      "mst_measure g s2 \<le> mst_measure g s1"
      "\<forall>w < length g. m_distTo s2 ! w \<le> m_distTo s1 ! w"
      "\<forall>p \<in> set wds. \<not> m_marked s1 ! fst p \<longrightarrow> m_distTo s2 ! fst p \<le> snd p"
    by auto
  have run: "visit_range vv s (wd # wds) = Inr s2" using s1(1) s2(1) wd by simp
  have mono: "\<forall>w < length g. m_distTo s2 ! w \<le> m_distTo s ! w"
    using s1(6) s2(6) by (meson order_trans)
  have hd: "\<not> m_marked s ! ww \<longrightarrow> m_distTo s2 ! ww \<le> d"
    using s1(7) s2(6) w(1) by (meson order_trans)
  have post: "\<forall>p \<in> set (wd # wds). \<not> m_marked s ! fst p \<longrightarrow> m_distTo s2 ! fst p \<le> snd p"
    using hd s2(7) s1(3) wd by simp
  from run s2(2) s2(3) s1(3) s2(4) s1(4) s2(5) s1(5) mono post show ?case
    by (intro exI[of _ s2]) simp
qed

lemma visit_inv:
  assumes inv: "mst_inv g s" and sq: "square g" and vv: "vv < length g"
    and m0: "vv = 0 \<or> m_marked s ! 0"
  shows "\<exists>s'. visit g vv s = Inr s' \<and> mst_inv g s' \<and>
           m_marked s' = (m_marked s)[vv := True] \<and> m_pops s' = m_pops s \<and>
           mst_measure g s' \<le> mst_measure g s \<and>
           (\<forall>w < length g. m_distTo s' ! w \<le> m_distTo s ! w) \<and>
           (\<forall>w < length g. \<not> m_marked s' ! w \<longrightarrow> m_distTo s' ! w \<le> g ! vv ! w)"
proof -
  let ?s1 = "s\<lparr>m_marked := (m_marked s)[vv := True]\<rparr>"
  from inv have len: "length (m_marked s) = length g" by (simp add: mst_inv_def)
  have i1: "mst_inv g ?s1" using inv by (simp add: mst_inv_def)
  have a: "m_marked ?s1 ! 0" "m_marked ?s1 ! vv"
    using m0 vv len by (auto simp: nth_list_update)
  have row: "length (g ! vv) = length g" using sq vv by (simp add: square_def)
  have b: "\<forall>p \<in> set (enumerate 0 (g ! vv)). fst p < length g \<and> snd p = g ! vv ! fst p"
    using row by (auto simp: in_set_enumerate_eq)
  from visit_range_inv[OF i1 a(1) vv a(2) b]
  obtain s' where s': "visit_range vv ?s1 (enumerate 0 (g ! vv)) = Inr s'" "mst_inv g s'"
      "m_marked s' = m_marked ?s1" "m_pops s' = m_pops ?s1"
      "mst_measure g s' \<le> mst_measure g ?s1"
      "\<forall>w < length g. m_distTo s' ! w \<le> m_distTo ?s1 ! w"
      "\<forall>p \<in> set (enumerate 0 (g ! vv)). \<not> m_marked ?s1 ! fst p \<longrightarrow> m_distTo s' ! fst p \<le> snd p"
    by auto
  have run: "visit g vv s = Inr s'"
    using s'(1) vv len by (simp add: visit_def Let_def)
  have post: "\<forall>w < length g. \<not> m_marked s' ! w \<longrightarrow> m_distTo s' ! w \<le> g ! vv ! w"
  proof (intro allI impI)
    fix w assume w: "w < length g" "\<not> m_marked s' ! w"
    then have "(w, g ! vv ! w) \<in> set (enumerate 0 (g ! vv))"
      using row by (simp add: in_set_enumerate_eq)
    with s'(7) w(2) s'(3) show "m_distTo s' ! w \<le> g ! vv ! w" by fastforce
  qed
  from run s'(2,3,4,5,6) post show ?thesis
    by (intro exI[of _ s']) (simp add: mst_measure_def)
qed

text \<open>
  The loop of \<open>findMST\<close> returns from every state that satisfies \<open>loop_inv\<close>: no index is
  out of range, and each turn lowers \<open>mst_measure\<close>.  The first turn pops the root and
  \<open>visit(0)\<close> lowers \<open>distTo[w]\<close> of every other vertex below \<open>math.MaxFloat64\<close>, setting
  its slot.
\<close>

lemma mst_loop_returns:
  assumes sq: "square g" and fin: "finite_off_diagonal g" and inv: "loop_inv g s"
  shows "\<exists>s'. mst_loop g s = Some (Inr s') \<and> mst_inv g s' \<and> m_marked s' ! 0 \<and>
           (\<forall>w < length g. 1 \<le> w \<longrightarrow> m_distTo s' ! w < MaxFloat64)"
  using inv
proof (induction "mst_measure g s" arbitrary: s rule: less_induct)
  case less
  from less.prems have mi: "mst_inv g s" by (simp add: loop_inv_def)
  show ?case
  proof (cases "m_pq s = []")
    case True
    then have "mst_loop g s = Some (Inr s)"
      by (subst mst_loop.simps) (simp add: Len_def)
    moreover from less.prems True have "m_marked s ! 0"
      "\<forall>w < length g. 1 \<le> w \<longrightarrow> m_distTo s ! w < MaxFloat64"
      by (simp_all add: loop_inv_def split: if_splits)
    ultimately show ?thesis using mi by simp
  next
    case False
    obtain item q where pop: "heap_Pop (m_pq s) = (item, q)" by (cases "heap_Pop (m_pq s)")
    from False have ne: "0 < length (m_pq s)" by simp
    note pp = heap_Pop_props[OF ne pop]
    let ?s1 = "s\<lparr>m_pq := q, m_pops := m_pops s + 1\<rparr>"
    let ?vv = "edge_w (edge item)"
    have sub: "edge item \<in> edge ` set (m_pq s)" "edge ` set q \<subseteq> edge ` set (m_pq s)"
      using pp(2) by blast+
    from mi have it: "\<forall>e \<in> edge ` set (m_pq s). edge_w e < length g"
      and ix: "indexed (m_pq s)" and lm: "length (m_marked s) = length g"
      by (simp_all add: mst_inv_def del: set_map)
    have vv: "?vv < length g" using it sub(1) by blast
    have itq: "\<forall>e \<in> edge ` set q. edge_w e < length g" using it sub(2) by blast
    have inv1: "mst_inv g ?s1"
      using mi itq pp(3) ix by (simp add: mst_inv_def del: set_map)
    have m0: "?vv = 0 \<or> m_marked ?s1 ! 0"
    proof (cases "m_marked s ! 0")
      case True then show ?thesis by simp
    next
      case False
      with less.prems have "\<forall>e \<in> edge ` set (m_pq s). edge_w e = 0"
        by (simp add: loop_inv_def del: set_map)
      with sub(1) show ?thesis by blast
    qed
    from visit_inv[OF inv1 sq vv m0]
    obtain s' where s': "visit g ?vv ?s1 = Inr s'" "mst_inv g s'"
        "m_marked s' = (m_marked s)[?vv := True]"
        "mst_measure g s' \<le> mst_measure g ?s1"
        "\<forall>w < length g. m_distTo s' ! w \<le> m_distTo s ! w"
        "\<forall>w < length g. \<not> m_marked s' ! w \<longrightarrow> m_distTo s' ! w \<le> g ! ?vv ! w"
      by auto
    have g0: "0 < length g" using vv by (cases g) simp_all
    have mk: "m_marked s' ! 0"
      using m0 s'(3) lm g0 vv by (auto simp: nth_list_update)
    have dt: "\<forall>w < length g. 1 \<le> w \<longrightarrow> m_distTo s' ! w < MaxFloat64"
    proof (cases "m_marked s ! 0")
      case True
      with less.prems have "\<forall>w < length g. 1 \<le> w \<longrightarrow> m_distTo s ! w < MaxFloat64"
        by (simp add: loop_inv_def)
      with s'(5) show ?thesis by (meson le_less_trans)
    next
      case False
      with less.prems have z: "\<forall>e \<in> edge ` set (m_pq s). edge_w e = 0"
        and um: "\<forall>w < length g. \<not> m_marked s ! w"
        by (simp_all add: loop_inv_def del: set_map)
      from z sub(1) have v0: "?vv = 0" by blast
      show ?thesis
      proof (intro allI impI)
        fix w assume w: "w < length g" "1 \<le> w"
        with um s'(3) v0 lm have "\<not> m_marked s' ! w" by (simp add: nth_list_update)
        with s'(6) w(1) v0 have "m_distTo s' ! w \<le> g ! 0 ! w" by simp
        moreover from fin g0 w have "g ! 0 ! w < MaxFloat64"
          by (simp add: finite_off_diagonal_def)
        ultimately show "m_distTo s' ! w < MaxFloat64" by simp
      qed
    qed
    have li: "loop_inv g s'" using s'(2) mk dt by (simp add: loop_inv_def)
    have "mst_measure g ?s1 < mst_measure g s"
      using pp(1) ne by (simp add: mst_measure_def)
    with s'(4) have "mst_measure g s' < mst_measure g s" by simp
    from less.hyps[OF this li]
    obtain s'' where s'': "mst_loop g s' = Some (Inr s'')" "mst_inv g s''" "m_marked s'' ! 0"
        "\<forall>w < length g. 1 \<le> w \<longrightarrow> m_distTo s'' ! w < MaxFloat64"
      by auto
    have "mst_loop g s = mst_loop g s'"
      using ne pop s'(1) by (subst mst_loop.simps) (simp add: Len_def)
    with s'' show ?thesis by simp
  qed
qed

lemma heap_Init_single: "heap_Init [x] = [x]"
  by (simp add: heap_Init_def Len_def)

lemma findMST_init_inv:
  assumes "length (graph p) = length (location p)" "location p \<noteq> []"
  shows "\<exists>s. findMST_init p = Inr s \<and> loop_inv (graph p) s"
proof -
  let ?n = "length (location p)"
  let ?s = "\<lparr>m_mst = replicate ?n None, m_marked = replicate ?n False,
             m_distTo = (replicate ?n MaxFloat64)[0 := MaxFloat64],
             m_pq = [\<lparr>edge = \<lparr>edge_v = 0, edge_w = 0\<rparr>, index = 0, distance = MaxFloat64\<rparr>],
             m_pops = 0\<rparr>"
  from assms(2) have n: "0 < ?n" by simp
  then have run: "findMST_init p = Inr ?s"
    by (simp add: findMST_init_def Let_def heap_Init_single)
  have "mst_inv (graph p) ?s"
    using assms(1) n by (simp add: mst_inv_def indexed_def slot_ok_def nth_list_update)
  then have "loop_inv (graph p) ?s"
    using assms(1) n by (simp add: loop_inv_def)
  with run show ?thesis by blast
qed

lemma findMST_run_fills_slots:
  assumes len: "length (graph p) = length (location p)" and ne: "location p \<noteq> []"
    and sq: "square (graph p)" and fin: "finite_off_diagonal (graph p)"
  shows "\<exists>s. findMST_run p = Some (Inr s) \<and> length (m_mst s) = length (location p) \<and>
           m_mst s ! 0 = None \<and>
           (\<forall>w < length (location p). 1 \<le> w \<longrightarrow>
              (\<exists>v < length (location p). v \<noteq> w \<and>
                 m_mst s ! w = Some \<lparr>edge_v = v, edge_w = w\<rparr>))"
proof -
  let ?g = "graph p"
  from findMST_init_inv[OF len ne]
  obtain s0 where s0: "findMST_init p = Inr s0" "loop_inv ?g s0" by blast
  from mst_loop_returns[OF sq fin s0(2)]
  obtain s where s: "mst_loop ?g s0 = Some (Inr s)" "mst_inv ?g s" "m_marked s ! 0"
      "\<forall>w < length ?g. 1 \<le> w \<longrightarrow> m_distTo s ! w < MaxFloat64"
    by blast
  have run: "findMST_run p = Some (Inr s)" using s0(1) s(1) by (simp add: findMST_run_def)
  from s(2) have l: "length (m_mst s) = length ?g"
    and sl: "\<forall>w < length ?g. slot_ok (length ?g) w (m_mst s ! w) (m_distTo s ! w)"
    by (simp_all add: mst_inv_def)
  from ne len have g0: "0 < length ?g" by simp
  with sl have "slot_ok (length ?g) 0 (m_mst s ! 0) (m_distTo s ! 0)" by blast
  then have z: "m_mst s ! 0 = None" by (simp add: slot_ok_def split: option.splits)
  have r: "\<forall>w < length (location p). 1 \<le> w \<longrightarrow>
      (\<exists>v < length (location p). v \<noteq> w \<and> m_mst s ! w = Some \<lparr>edge_v = v, edge_w = w\<rparr>)"
  proof (intro allI impI)
    fix w assume w: "w < length (location p)" "1 \<le> w"
    with len sl s(4) have a: "slot_ok (length ?g) w (m_mst s ! w) (m_distTo s ! w)"
      and b: "m_distTo s ! w < MaxFloat64" by simp_all
    from a b obtain e where e: "m_mst s ! w = Some e" "edge_w e = w" "edge_v e < length ?g"
        "edge_v e \<noteq> w"
      by (auto simp: slot_ok_def split: option.splits)
    from e(2) have "e = \<lparr>edge_v = edge_v e, edge_w = w\<rparr>" by (cases e) simp
    with e len show "\<exists>v < length (location p). v \<noteq> w \<and> m_mst s ! w = Some \<lparr>edge_v = v, edge_w = w\<rparr>"
      by (intro exI[of _ "edge_v e"]) simp
  qed
  from run l len z r show ?thesis by simp
qed

text \<open>
  \<open>findDistances\<close> followed by \<open>findMST\<close>, for at least one vertex whose pairwise distances
  are below \<open>math.MaxFloat64\<close>: \<open>findMST\<close> returns, slot 0 of \<open>p.mst\<close> is \<open>nil\<close>, and every
  other slot \<open>w\<close> holds an edge from another vertex to \<open>w\<close>.  The number of pops is not
  part of this: the run on the three points of \<open>line3\<close> takes four pops.
\<close>

lemma findDistances_graph:
  "length (graph (findDistances p)) = length (location p)"
  "square (graph (findDistances p))"
  "location (findDistances p) = location p"
  by (simp_all add: findDistances_def Let_def square_def)

lemma findDistances_finite:
  assumes "\<forall>i < length (location p). \<forall>j < length (location p).
             i \<noteq> j \<longrightarrow> cmod (location p ! i - location p ! j) < MaxFloat64"
  shows "finite_off_diagonal (graph (findDistances p))"
  using assms
  by (auto simp: finite_off_diagonal_def findDistances_def Let_def)

lemma findMST_returns_tree:
  assumes ne: "location p \<noteq> []"
    and fin: "\<forall>i < length (location p). \<forall>j < length (location p).
             i \<noteq> j \<longrightarrow> cmod (location p ! i - location p ! j) < MaxFloat64"
  shows "\<exists>q. findMST (findDistances p) = Some (Inr q) \<and>
           length (mst q) = length (location p) \<and> mst q ! 0 = None \<and>
           (\<forall>w < length (location p). 1 \<le> w \<longrightarrow>
              (\<exists>v < length (location p). v \<noteq> w \<and>
                 mst q ! w = Some \<lparr>edge_v = v, edge_w = w\<rparr>))"
proof -
  let ?p = "findDistances p"
  have a: "length (graph ?p) = length (location ?p)" "location ?p \<noteq> []"
    using ne by (simp_all add: findDistances_graph)
  from findMST_run_fills_slots[OF a findDistances_graph(2) findDistances_finite[OF fin]]
  obtain s where s: "findMST_run ?p = Some (Inr s)" "length (m_mst s) = length (location p)"
      "m_mst s ! 0 = None"
      "\<forall>w < length (location p). 1 \<le> w \<longrightarrow>
         (\<exists>v < length (location p). v \<noteq> w \<and> m_mst s ! w = Some \<lparr>edge_v = v, edge_w = w\<rparr>)"
    by (auto simp: findDistances_graph(3))
  from s(1) have "findMST ?p = Some (Inr (?p\<lparr>mst := m_mst s\<rparr>))"
    by (simp add: findMST_def)
  with s(2,3,4) show ?thesis by simp
qed

end
